theory Spec2Isabelle
  imports Complex_Main "HOL-Library.Sublist"
begin

section \<open>The voice-note service of src/services/voice-note-service.ts\<close>

text \<open>
  The class \<^verbatim>\<open>VoiceNoteService\<close> is a small state machine whose methods are
  \<^verbatim>\<open>async\<close>: each of them runs until its next \<^verbatim>\<open>await\<close>, and is resumed
  later by an event of the host (the microphone is granted, the recorder has stopped, a
  network response has arrived). Between two such events the host may call
  \<^verbatim>\<open>toggleRecording\<close> again (main.ts discards the promise with \<^verbatim>\<open>void\<close>)
  or edit the settings. The embedding follows that: the fields of the object and the
  collaborators it reads are a record \<open>world\<close>, every synchronous segment of a method
  is a function on worlds, and \<open>step\<close> dispatches one host event to the segment it
  resumes.
\<close>

subsection \<open>Strings\<close>

text \<open>
  A \<open>string\<close> stands for a JavaScript string whose code units are below 256; a
  \<open>char\<close> is one code unit. \<open>trim\<close> removes the code units that
  \<^verbatim>\<open>String.prototype.trim\<close> removes in that range (TAB, LF, VT, FF, CR, SP, NBSP),
  \<open>toLowerCase\<close> maps A-Z and the upper-case letters of Latin-1 (0xC0-0xDE without
  0xD7) to the letter 32 code units above.
\<close>

definition isWhiteSpace :: "char \<Rightarrow> bool" where
  "isWhiteSpace c \<longleftrightarrow>
     c \<in> {CHR 0x09, CHR 0x0A, CHR 0x0B, CHR 0x0C, CHR 0x0D, CHR 0x20, CHR 0xA0}"

definition trim :: "string \<Rightarrow> string" where
  "trim s = rev (dropWhile isWhiteSpace (rev (dropWhile isWhiteSpace s)))"

definition toLowerChar :: "char \<Rightarrow> char" where
  "toLowerChar c =
     (let n = (of_char c :: nat)
      in if (65 \<le> n \<and> n \<le> 90) \<or> (192 \<le> n \<and> n \<le> 222 \<and> n \<noteq> 215)
         then char_of (n + 32) else c)"

definition toLowerCase :: "string \<Rightarrow> string" where
  "toLowerCase s = map toLowerChar s"

text \<open>\<^verbatim>\<open>s.includes(p)\<close>: \<open>p\<close> occurs in \<open>s\<close> as a contiguous run.\<close>

fun str_includes :: "string \<Rightarrow> string \<Rightarrow> bool" where
  "str_includes [] p = (p = [])"
| "str_includes (c # s) p = (prefix p (c # s) \<or> str_includes s p)"

text \<open>
  The comparison the specification describes for the note model: two identifiers are
  equal when case is ignored, and nothing else is.
\<close>

definition spec_equalsIgnoreCase :: "string \<Rightarrow> string \<Rightarrow> bool" where
  "spec_equalsIgnoreCase a b \<longleftrightarrow> toLowerCase a = toLowerCase b"

subsection \<open>Data\<close>

datatype RecordingState = Idle | Recording | Processing

record VoiceNoteSettings =
  apiKey :: string
  transcriptionModel :: string
  noteModel :: string
  notePrompt :: string

definition DEFAULT_SETTINGS :: VoiceNoteSettings where
  "DEFAULT_SETTINGS =
     \<lparr> apiKey = '''',
       transcriptionModel = ''whisper-1'',
       noteModel = ''gpt-4o-mini'',
       notePrompt =
         ''You are an assistant that turns voice transcripts into clean Obsidian notes. '' @
         ''Return a concise note in Markdown with a short title, bullet points, and clear sections when helpful. '' @
         ''Remove filler words, keep the original meaning, and avoid adding new facts.'' \<rparr>"

definition DEFAULT_MIME_TYPE :: string where
  "DEFAULT_MIME_TYPE = ''audio/webm;codecs=opus''"

text \<open>A \<^verbatim>\<open>Blob\<close>: its bytes and its content type; \<^verbatim>\<open>size\<close> is the number of bytes.\<close>

record Blob =
  blob_data :: "nat list"
  blob_type :: string

text \<open>
  The \<^verbatim>\<open>Blob\<close> constructor does not keep the \<^verbatim>\<open>type\<close> option as given: a type
  with a code unit outside U+0020 to U+007E becomes the empty string, any other type is
  converted to ASCII lower case.
\<close>

definition asciiLowerChar :: "char \<Rightarrow> char" where
  "asciiLowerChar c =
     (let n = (of_char c :: nat) in if 65 \<le> n \<and> n \<le> 90 then char_of (n + 32) else c)"

definition blobTypeOf :: "string \<Rightarrow> string" where
  "blobTypeOf ty =
     (if list_ex (\<lambda>c. (of_char c :: nat) < 32 \<or> 126 < (of_char c :: nat)) ty then []
      else map asciiLowerChar ty)"

definition newBlob :: "Blob list \<Rightarrow> string \<Rightarrow> Blob" where
  "newBlob parts ty =
     \<lparr> blob_data = concat (map blob_data parts), blob_type = blobTypeOf ty \<rparr>"

text \<open>
  What a \<^verbatim>\<open>catch\<close> can receive: an \<^verbatim>\<open>Error\<close> with its message, or a value
  that is not an \<^verbatim>\<open>Error\<close>.
\<close>

datatype thrown = Error string | NonError

text \<open>
  The outcome of \<^verbatim>\<open>fetch\<close>: the promise rejects, or it resolves to a response with
  its \<^verbatim>\<open>ok\<close> flag, the body as \<^verbatim>\<open>text()\<close> returns it and the body as
  \<^verbatim>\<open>json()\<close> returns it (which throws on a body that is not JSON). The JSON values
  have the shapes the source casts them to.
\<close>

datatype 'j fetch_result = Rejected thrown | Response bool string "thrown + 'j"

datatype transcription_json = TranscriptionJson "string option"

datatype chat_message = ChatMessage "string option"
datatype chat_choice = ChatChoice "chat_message option"
datatype chat_json = ChatJson "chat_choice list option"

record transcription_request =
  tr_authorization :: string
  tr_file_name :: string
  tr_file_type :: string
  tr_file_data :: "nat list"
  tr_model :: string
  tr_response_format :: string

datatype role = System | User

record chat_body =
  model :: string
  messages :: "(role \<times> string) list"
  temperature :: "rat option"

record note_request =
  nr_content_type :: string
  nr_authorization :: string
  nr_body :: chat_body

text \<open>
  The editor of the active Markdown view: the text before the selection, the selected
  text, the text after it. \<^verbatim>\<open>replaceSelection\<close> is the host's: the selection is
  replaced by the given text and the cursor is left after it.
\<close>

record Editor =
  before_cursor :: string
  selection :: string
  after_cursor :: string

definition replaceSelection :: "string \<Rightarrow> Editor \<Rightarrow> Editor" where
  "replaceSelection t ed = ed\<lparr> before_cursor := before_cursor ed @ t, selection := [] \<rparr>"

subsection \<open>The two remote stages and delivery\<close>

text \<open>
  \<^verbatim>\<open>transcribeAudio\<close> up to its \<^verbatim>\<open>fetch\<close>: the settings are read, checked, and
  the multipart request is built.
\<close>

definition transcribeAudio_request ::
  "VoiceNoteSettings \<Rightarrow> Blob \<Rightarrow> thrown + transcription_request" where
  "transcribeAudio_request s audioBlob =
     (if apiKey s = [] then Inl (Error ''Add your OpenAI API key in settings.'')
      else if transcriptionModel s = [] then Inl (Error ''Set a transcription model in settings.'')
      else
        let fileName = (if str_includes (blob_type audioBlob) ''ogg''
                        then ''recording.ogg'' else ''recording.webm'')
        in Inr \<lparr> tr_authorization = ''Bearer '' @ apiKey s,
                 tr_file_name = fileName,
                 tr_file_type = (if blob_type audioBlob = [] then ''audio/webm''
                                 else blob_type audioBlob),
                 tr_file_data = blob_data audioBlob,
                 tr_model = transcriptionModel s,
                 tr_response_format = ''json'' \<rparr>)"

text \<open>\<^verbatim>\<open>transcribeAudio\<close> from the settled \<^verbatim>\<open>fetch\<close> on.\<close>

definition transcribeAudio_response :: "transcription_json fetch_result \<Rightarrow> thrown + string" where
  "transcribeAudio_response fr =
     (case fr of
        Rejected e \<Rightarrow> Inl e
      | Response ok body js \<Rightarrow>
          if \<not> ok then Inl (Error (''Transcription failed: '' @ body))
          else (case js of
                  Inl e \<Rightarrow> Inl e
                | Inr (TranscriptionJson t) \<Rightarrow>
                    (case map_option trim t of
                       None \<Rightarrow> Inl (Error ''Transcription returned no text.'')
                     | Some txt \<Rightarrow>
                         if txt = [] then Inl (Error ''Transcription returned no text.'')
                         else Inr txt)))"

definition transcribeAudio ::
  "VoiceNoteSettings \<Rightarrow> Blob \<Rightarrow> transcription_json fetch_result \<Rightarrow> thrown + string" where
  "transcribeAudio s audioBlob fr =
     (case transcribeAudio_request s audioBlob of
        Inl e \<Rightarrow> Inl e
      | Inr req \<Rightarrow> transcribeAudio_response fr)"

definition supportsTemperature :: "string \<Rightarrow> bool" where
  "supportsTemperature m = (let normalized = toLowerCase (trim m) in normalized \<noteq> ''gpt-5-mini'')"

text \<open>\<^verbatim>\<open>generateNote\<close> up to its \<^verbatim>\<open>fetch\<close>.\<close>

definition generateNote_request :: "VoiceNoteSettings \<Rightarrow> string \<Rightarrow> thrown + note_request" where
  "generateNote_request s transcript =
     (if apiKey s = [] then Inl (Error ''Add your OpenAI API key in settings.'')
      else if noteModel s = [] then Inl (Error ''Set a note creation model in settings.'')
      else
        let body = \<lparr> model = noteModel s,
                     messages = [(System, notePrompt s),
                                 (User, ''Transcript:'' @ [CHR 0x0A] @ transcript)],
                     temperature = None \<rparr>;
            body = (if supportsTemperature (noteModel s)
                    then body\<lparr> temperature := Some 0.2 \<rparr> else body)
        in Inr \<lparr> nr_content_type = ''application/json'',
                 nr_authorization = ''Bearer '' @ apiKey s,
                 nr_body = body \<rparr>)"

text \<open>\<^verbatim>\<open>data.choices?.[0]?.message?.content\<close>\<close>

definition first_choice_content :: "chat_json \<Rightarrow> string option" where
  "first_choice_content d =
     (case d of ChatJson cs \<Rightarrow>
        (case cs of
           None \<Rightarrow> None
         | Some [] \<Rightarrow> None
         | Some (ChatChoice m # _) \<Rightarrow>
             (case m of None \<Rightarrow> None | Some (ChatMessage c) \<Rightarrow> c)))"

text \<open>\<^verbatim>\<open>generateNote\<close> from the settled \<^verbatim>\<open>fetch\<close> on.\<close>

definition generateNote_response :: "chat_json fetch_result \<Rightarrow> thrown + string" where
  "generateNote_response fr =
     (case fr of
        Rejected e \<Rightarrow> Inl e
      | Response ok body js \<Rightarrow>
          if \<not> ok then Inl (Error (''Note creation failed: '' @ body))
          else (case js of
                  Inl e \<Rightarrow> Inl e
                | Inr d \<Rightarrow>
                    (case first_choice_content d of
                       None \<Rightarrow> Inl (Error ''Note creation returned no content.'')
                     | Some c \<Rightarrow>
                         if c = [] then Inl (Error ''Note creation returned no content.'')
                         else Inr (trim c))))"

definition generateNote ::
  "VoiceNoteSettings \<Rightarrow> string \<Rightarrow> chat_json fetch_result \<Rightarrow> thrown + string" where
  "generateNote s transcript fr =
     (case generateNote_request s transcript of
        Inl e \<Rightarrow> Inl e
      | Inr req \<Rightarrow> generateNote_response fr)"

text \<open>
  \<^verbatim>\<open>insertNote\<close>: the active Markdown view is looked up when the note is delivered;
  without one the method throws, otherwise the note and one line feed replace the
  selection.
\<close>

definition insertNote :: "string \<Rightarrow> Editor option \<Rightarrow> thrown + Editor" where
  "insertNote note view =
     (case view of
        None \<Rightarrow> Inl (Error ''Open a note to insert the transcript.'')
      | Some editor \<Rightarrow> Inr (replaceSelection (note @ [CHR 0x0A]) editor))"

subsection \<open>The service object and its host\<close>

text \<open>
  A \<^verbatim>\<open>MediaRecorder\<close> the service has created is known by the number of its
  creation. It captures from \<^verbatim>\<open>start()\<close> on. Its \<^verbatim>\<open>stop\<close> event is fired
  once: after \<^verbatim>\<open>stop()\<close> was called on it, or on its own when the tracks of its
  stream end (the device is unplugged, say). The listener of that event is the only place
  where the source stops the tracks; from then on the recorder is inactive and released.
\<close>

datatype recorder_status = Capturing | Stopping | Released

record MediaRecorder =
  mimeType :: string
  status :: recorder_status

text \<open>Where a call of \<^verbatim>\<open>stopRecording\<close> is suspended.\<close>

datatype stage = AwaitingStop | AwaitingTranscription | AwaitingNote

text \<open>
  The first three fields are the fields of the class. \<open>settings\<close> is what
  \<^verbatim>\<open>getSettings()\<close> returns when it is called, \<open>hasGetUserMedia\<close> is
  \<^verbatim>\<open>navigator.mediaDevices?.getUserMedia\<close>, \<open>activeView\<close> is what
  \<^verbatim>\<open>getActiveViewOfType(MarkdownView)\<close> returns when it is called.
  \<open>pendingStarts\<close> counts the calls of \<^verbatim>\<open>startRecording\<close> suspended at
  \<^verbatim>\<open>getUserMedia\<close>, \<open>attempts\<close> holds the calls of \<^verbatim>\<open>stopRecording\<close>
  that have not returned, by the recorder they stopped. The remaining fields record what
  the service has emitted: notices, calls of the state listener, requests, and the
  rejections of \<^verbatim>\<open>toggleRecording\<close> that nothing catches.
\<close>

record world =
  state :: RecordingState
  mediaRecorder :: "nat option"
  chunks :: "Blob list"
  settings :: VoiceNoteSettings
  hasGetUserMedia :: bool
  activeView :: "Editor option"
  pendingStarts :: nat
  created :: nat
  recorders :: "nat \<Rightarrow> MediaRecorder option"
  attempts :: "nat \<Rightarrow> stage option"
  notices :: "string list"
  stateChanges :: "RecordingState list"
  transcriptionRequests :: "transcription_request list"
  noteRequests :: "note_request list"
  uncaught :: "thrown list"

definition initial :: "VoiceNoteSettings \<Rightarrow> bool \<Rightarrow> Editor option \<Rightarrow> world" where
  "initial s cap view =
     \<lparr> state = Idle, mediaRecorder = None, chunks = [],
       settings = s, hasGetUserMedia = cap, activeView = view,
       pendingStarts = 0, created = 0,
       recorders = (\<lambda>_. None), attempts = (\<lambda>_. None),
       notices = [], stateChanges = [],
       transcriptionRequests = [], noteRequests = [], uncaught = [] \<rparr>"

definition notice :: "string \<Rightarrow> world \<Rightarrow> world" where
  "notice msg w = w\<lparr> notices := notices w @ [msg] \<rparr>"

definition setState :: "RecordingState \<Rightarrow> world \<Rightarrow> world" where
  "setState st w = w\<lparr> state := st, stateChanges := stateChanges w @ [st] \<rparr>"

text \<open>\<^verbatim>\<open>startRecording\<close> up to \<^verbatim>\<open>await getUserMedia\<close>.\<close>

definition startRecording :: "world \<Rightarrow> world" where
  "startRecording w =
     (if \<not> hasGetUserMedia w then notice ''Microphone access is not available.'' w
      else w\<lparr> pendingStarts := pendingStarts w + 1 \<rparr>)"

text \<open>
  \<^verbatim>\<open>startRecording\<close> resumed with a stream. \<open>supported\<close> is
  \<^verbatim>\<open>MediaRecorder.isTypeSupported(DEFAULT_MIME_TYPE)\<close>, \<open>browserType\<close> the type a
  recorder built without options reports.
\<close>

definition startRecording_granted :: "bool \<Rightarrow> string \<Rightarrow> world \<Rightarrow> world" where
  "startRecording_granted supported browserType w =
     (let mimeType' = (if supported then DEFAULT_MIME_TYPE else []);
          recorder = \<lparr> mimeType = (if mimeType' \<noteq> [] then mimeType' else browserType),
                       status = Capturing \<rparr>;
          r = created w;
          w = w\<lparr> pendingStarts := pendingStarts w - 1,
                 created := r + 1,
                 recorders := (recorders w)(r \<mapsto> recorder) \<rparr>;
          w = w\<lparr> mediaRecorder := Some r \<rparr>;
          w = w\<lparr> chunks := [] \<rparr>;
          w = setState Recording w
      in notice ''Recording started.'' w)"

text \<open>\<^verbatim>\<open>startRecording\<close> resumed with a rejection: nothing catches it.\<close>

definition startRecording_denied :: "thrown \<Rightarrow> world \<Rightarrow> world" where
  "startRecording_denied e w =
     w\<lparr> pendingStarts := pendingStarts w - 1, uncaught := uncaught w @ [e] \<rparr>"

text \<open>
  \<^verbatim>\<open>recorder.stop()\<close>: a capturing recorder is asked to stop, and its stop event
  will follow. On a recorder that is inactive already the call returns at once and no
  event follows (MediaStream Recording, the \<^verbatim>\<open>stop()\<close> method, step 2).
\<close>

definition recorder_stop :: "nat \<Rightarrow> world \<Rightarrow> world" where
  "recorder_stop r w =
     (case recorders w r of
        None \<Rightarrow> w
      | Some m \<Rightarrow>
          if status m = Capturing
          then w\<lparr> recorders := (recorders w)(r \<mapsto> m\<lparr> status := Stopping \<rparr>) \<rparr>
          else w)"

text \<open>\<^verbatim>\<open>stopRecording\<close> up to the \<^verbatim>\<open>await\<close> of the recorder's stop event.\<close>

definition stopRecording :: "world \<Rightarrow> world" where
  "stopRecording w =
     (case mediaRecorder w of
        None \<Rightarrow> w
      | Some r \<Rightarrow>
          let w = setState Processing w;
              w = w\<lparr> mediaRecorder := None \<rparr>;
              w = w\<lparr> attempts := (attempts w)(r \<mapsto> AwaitingStop) \<rparr>
          in recorder_stop r w)"

definition toggleRecording :: "world \<Rightarrow> world" where
  "toggleRecording w =
     (if state w = Recording then stopRecording w
      else if state w = Processing then notice ''Already processing the previous recording.'' w
      else startRecording w)"

definition stopIfRecording :: "world \<Rightarrow> world" where
  "stopIfRecording w = (if state w = Recording then stopRecording w else w)"

text \<open>The \<^verbatim>\<open>dataavailable\<close> listener.\<close>

definition onDataAvailable :: "Blob \<Rightarrow> world \<Rightarrow> world" where
  "onDataAvailable b w = (if length (blob_data b) > 0 then w\<lparr> chunks := chunks w @ [b] \<rparr> else w)"

text \<open>The \<^verbatim>\<open>catch\<close> and the \<^verbatim>\<open>finally\<close> block of \<^verbatim>\<open>stopRecording\<close>.\<close>

definition stopRecording_catch :: "thrown \<Rightarrow> world \<Rightarrow> world" where
  "stopRecording_catch e w =
     notice (case e of Error msg \<Rightarrow> msg | NonError \<Rightarrow> ''Failed to process recording.'') w"

definition stopRecording_finally :: "nat \<Rightarrow> world \<Rightarrow> world" where
  "stopRecording_finally r w =
     (let w = w\<lparr> chunks := [] \<rparr>;
          w = setState Idle w
      in w\<lparr> attempts := (attempts w)(r := None) \<rparr>)"

text \<open>
  What the \<^verbatim>\<open>catch\<close> block shows for a thrown value, and what the \<^verbatim>\<open>catch\<close>
  (or the notice of success) and the \<^verbatim>\<open>finally\<close> block together leave of a call
  of \<^verbatim>\<open>stopRecording\<close> for recorder \<open>r\<close>: the state is \<open>Idle\<close> and the listener
  was told, the buffer is empty, the call has returned, and one notice was added.
\<close>

definition shown_message :: "thrown \<Rightarrow> string" where
  "shown_message e =
     (case e of Error msg \<Rightarrow> msg | NonError \<Rightarrow> ''Failed to process recording.'')"

definition settled_with :: "world \<Rightarrow> world \<Rightarrow> nat \<Rightarrow> string \<Rightarrow> bool" where
  "settled_with w w' r msg \<longleftrightarrow>
     state w' = Idle \<and> chunks w' = [] \<and> attempts w' r = None
     \<and> stateChanges w' = stateChanges w @ [Idle]
     \<and> notices w' = notices w @ [msg]"

text \<open>
  The recorder's stop event. The listener added by \<^verbatim>\<open>startRecording\<close> stops the
  tracks, whatever the state of the service. The one added by \<^verbatim>\<open>stopRecording\<close>,
  when that call waits for this recorder, builds the payload from the chunks held at that
  moment; only then is the \<^verbatim>\<open>try\<close> block entered, and it runs up to the first
  \<^verbatim>\<open>fetch\<close>. The wait itself is outside the \<^verbatim>\<open>try\<close> block.
\<close>

definition stopRecording_stopped :: "nat \<Rightarrow> MediaRecorder \<Rightarrow> world \<Rightarrow> world" where
  "stopRecording_stopped r m w =
     (let w = w\<lparr> recorders := (recorders w)(r \<mapsto> m\<lparr> status := Released \<rparr>) \<rparr>
      in if attempts w r \<noteq> Some AwaitingStop then w
         else
           let audioBlob = newBlob (chunks w) (if mimeType m = [] then ''audio/webm'' else mimeType m)
           in case transcribeAudio_request (settings w) audioBlob of
                Inl e \<Rightarrow> stopRecording_finally r (stopRecording_catch e w)
              | Inr req \<Rightarrow>
                  w\<lparr> transcriptionRequests := transcriptionRequests w @ [req],
                     attempts := (attempts w)(r \<mapsto> AwaitingTranscription) \<rparr>)"

text \<open>
  The transcription \<^verbatim>\<open>fetch\<close> has settled: the rest of \<^verbatim>\<open>transcribeAudio\<close>,
  then \<^verbatim>\<open>generateNote\<close> up to its \<^verbatim>\<open>fetch\<close>.
\<close>

definition stopRecording_transcribed ::
  "nat \<Rightarrow> transcription_json fetch_result \<Rightarrow> world \<Rightarrow> world" where
  "stopRecording_transcribed r fr w =
     (case transcribeAudio_response fr of
        Inl e \<Rightarrow> stopRecording_finally r (stopRecording_catch e w)
      | Inr transcript \<Rightarrow>
          (case generateNote_request (settings w) transcript of
             Inl e \<Rightarrow> stopRecording_finally r (stopRecording_catch e w)
           | Inr req \<Rightarrow>
               w\<lparr> noteRequests := noteRequests w @ [req],
                  attempts := (attempts w)(r \<mapsto> AwaitingNote) \<rparr>))"

text \<open>
  The composition \<^verbatim>\<open>fetch\<close> has settled: the rest of \<^verbatim>\<open>generateNote\<close>,
  \<^verbatim>\<open>insertNote\<close>, the notice of success, and the \<^verbatim>\<open>finally\<close> block.
\<close>

definition stopRecording_composed :: "nat \<Rightarrow> chat_json fetch_result \<Rightarrow> world \<Rightarrow> world" where
  "stopRecording_composed r fr w =
     (case generateNote_response fr of
        Inl e \<Rightarrow> stopRecording_finally r (stopRecording_catch e w)
      | Inr note \<Rightarrow>
          (case insertNote note (activeView w) of
             Inl e \<Rightarrow> stopRecording_finally r (stopRecording_catch e w)
           | Inr editor \<Rightarrow>
               stopRecording_finally r
                 (notice ''Voice note inserted.'' (w\<lparr> activeView := Some editor \<rparr>))))"

subsection \<open>Host events\<close>

datatype event =
    ToggleRecording
  | StopIfRecording
  | UserMediaGranted bool string
  | UserMediaDenied thrown
  | DataAvailable nat Blob
  | RecorderStopped nat
  | TranscriptionSettled nat "transcription_json fetch_result"
  | NoteSettled nat "chat_json fetch_result"
  | SettingsEdited VoiceNoteSettings
  | ActiveViewChanged "Editor option"

text \<open>
  An event that cannot occur leaves the world as it is: a grant or a denial needs a
  suspended \<^verbatim>\<open>startRecording\<close>, a chunk or the stop event a recorder that has not
  fired its stop event yet, a response the attempt that sent the request.
\<close>

fun step :: "world \<Rightarrow> event \<Rightarrow> world" where
  "step w ToggleRecording = toggleRecording w"
| "step w StopIfRecording = stopIfRecording w"
| "step w (UserMediaGranted supported browserType) =
     (if pendingStarts w = 0 then w else startRecording_granted supported browserType w)"
| "step w (UserMediaDenied e) =
     (if pendingStarts w = 0 then w else startRecording_denied e w)"
| "step w (DataAvailable r b) =
     (case recorders w r of
        None \<Rightarrow> w
      | Some m \<Rightarrow> if status m = Released then w else onDataAvailable b w)"
| "step w (RecorderStopped r) =
     (case recorders w r of
        None \<Rightarrow> w
      | Some m \<Rightarrow> if status m = Released then w else stopRecording_stopped r m w)"
| "step w (TranscriptionSettled r fr) =
     (if attempts w r = Some AwaitingTranscription then stopRecording_transcribed r fr w else w)"
| "step w (NoteSettled r fr) =
     (if attempts w r = Some AwaitingNote then stopRecording_composed r fr w else w)"
| "step w (SettingsEdited s) = w\<lparr> settings := s \<rparr>"
| "step w (ActiveViewChanged v) = w\<lparr> activeView := v \<rparr>"

definition run :: "world \<Rightarrow> event list \<Rightarrow> world" where
  "run w es = foldl step w es"

inductive reachable :: "world \<Rightarrow> bool" where
  reachable_initial: "reachable (initial s cap view)"
| reachable_step: "reachable w \<Longrightarrow> reachable (step w e)"

subsection \<open>Sample inputs\<close>

definition sample_settings :: "string \<Rightarrow> VoiceNoteSettings" where
  "sample_settings m =
     \<lparr> apiKey = ''sk-1'', transcriptionModel = ''whisper-1'', noteModel = m,
       notePrompt = ''Summarise.'' \<rparr>"

definition sample_editor :: Editor where
  "sample_editor = \<lparr> before_cursor = ''# Log '', selection = ''old'', after_cursor = '' end'' \<rparr>"

definition sample_chunk :: Blob where
  "sample_chunk = \<lparr> blob_data = [26, 69, 223, 163], blob_type = ''audio/webm;codecs=opus'' \<rparr>"

definition transcript_ok :: "string \<Rightarrow> transcription_json fetch_result" where
  "transcript_ok t = Response True [] (Inr (TranscriptionJson (Some t)))"

definition note_ok :: "string \<Rightarrow> chat_json fetch_result" where
  "note_ok c = Response True [] (Inr (ChatJson (Some [ChatChoice (Some (ChatMessage (Some c)))])))"

text \<open>One recording with the default settings (no API key), stopped by a second toggle.\<close>

definition w_stopping :: world where
  "w_stopping =
     run (initial DEFAULT_SETTINGS True None)
       [ToggleRecording, UserMediaGranted True [], ToggleRecording]"

text \<open>
  One recording with an API key and an open note: stopped, its chunk delivered; then the
  recorder's stop event; then the transcript.
\<close>

definition w_recorded :: world where
  "w_recorded =
     run (initial (sample_settings ''gpt-4o-mini'') True (Some sample_editor))
       [ToggleRecording, UserMediaGranted True [], ToggleRecording,
        DataAvailable 0 sample_chunk]"

definition w_transcribing :: world where
  "w_transcribing = step w_recorded (RecorderStopped 0)"

definition w_composing :: world where
  "w_composing = step w_transcribing (TranscriptionSettled 0 (transcript_ok ''buy milk''))"

text \<open>The note is closed while the composition request is under way.\<close>

definition w_no_view :: world where
  "w_no_view = step w_composing (ActiveViewChanged None)"

text \<open>
  The browser has \<^verbatim>\<open>getUserMedia\<close>, and the request for the microphone is rejected
  (there is no device).
\<close>

definition w_denied :: world where
  "w_denied =
     run (initial DEFAULT_SETTINGS True None)
       [ToggleRecording, UserMediaDenied (Error ''Requested device not found'')]"

text \<open>The settings are edited while the transcription request is under way.\<close>

definition edited_settings :: VoiceNoteSettings where
  "edited_settings =
     \<lparr> apiKey = ''sk-2'', transcriptionModel = ''whisper-1'', noteModel = ''gpt-5-mini'',
       notePrompt = ''Bullets only.'' \<rparr>"

definition w_edited :: world where
  "w_edited =
     run w_transcribing
       [SettingsEdited edited_settings, TranscriptionSettled 0 (transcript_ok ''buy milk'')]"

definition w_reconfigured :: world where
  "w_reconfigured = step w_transcribing (SettingsEdited edited_settings)"

text \<open>
  The ribbon icon is clicked twice before the microphone is granted; both calls of
  \<^verbatim>\<open>startRecording\<close> are resumed.
\<close>

definition w_two_recorders :: world where
  "w_two_recorders =
     run (initial DEFAULT_SETTINGS True None)
       [ToggleRecording, ToggleRecording, UserMediaGranted True [], UserMediaGranted True []]"

text \<open>
  The same two clicks, and a third one between the two grants: it stops the first
  recorder, the second grant arrives during the processing, and the first attempt
  settles (the default settings have no API key).
\<close>

definition w_idle_holding :: world where
  "w_idle_holding =
     run (initial DEFAULT_SETTINGS True None)
       [ToggleRecording, ToggleRecording, UserMediaGranted True [], ToggleRecording,
        UserMediaGranted True [], RecorderStopped 0]"

text \<open>
  With an API key, and a fourth click after the second grant: both recorders are stopped
  and both transcription requests are under way.
\<close>

definition w_two_attempts :: world where
  "w_two_attempts =
     run (initial (sample_settings ''gpt-4o-mini'') True None)
       [ToggleRecording, ToggleRecording, UserMediaGranted True [], ToggleRecording,
        UserMediaGranted True [], ToggleRecording, RecorderStopped 0, RecorderStopped 1]"

text \<open>
  The tracks of a recording end on their own (the recorder fires its stop event and is
  inactive), and the recording is then toggled off.
\<close>

definition w_self_stopped :: world where
  "w_self_stopped =
     run (initial DEFAULT_SETTINGS True None)
       [ToggleRecording, UserMediaGranted True [], RecorderStopped 0, ToggleRecording]"

subsection \<open>Calls that do not overlap a start\<close>

text \<open>
  The runs in which \<^verbatim>\<open>toggleRecording\<close> is never called while an earlier call is
  still waiting for the microphone. Every other event may come at any time.
\<close>

inductive serial_reachable :: "world \<Rightarrow> bool" where
  serial_initial: "serial_reachable (initial s cap view)"
| serial_step:
    "serial_reachable w \<Longrightarrow> (e = ToggleRecording \<longrightarrow> pendingStarts w = 0)
       \<Longrightarrow> serial_reachable (step w e)"

text \<open>
  A recorder is a live capture handle until the tracks of its stream are stopped; it
  captures until \<^verbatim>\<open>stop()\<close> is called on it.
\<close>

definition unreleased :: "world \<Rightarrow> nat \<Rightarrow> bool" where
  "unreleased w r \<longleftrightarrow>
     (case recorders w r of None \<Rightarrow> False | Some m \<Rightarrow> status m \<noteq> Released)"

definition capturing :: "world \<Rightarrow> nat \<Rightarrow> bool" where
  "capturing w r \<longleftrightarrow>
     (case recorders w r of None \<Rightarrow> False | Some m \<Rightarrow> status m = Capturing)"

text \<open>What holds of such a run in each state of the service.\<close>

definition serial_inv :: "world \<Rightarrow> bool" where
  "serial_inv w \<longleftrightarrow>
     (state w = Idle \<longrightarrow>
        mediaRecorder w = None \<and> pendingStarts w \<le> 1
        \<and> (\<forall>r. attempts w r = None) \<and> (\<forall>r. \<not> unreleased w r))
     \<and> (state w = Recording \<longrightarrow>
          pendingStarts w = 0 \<and> (\<forall>r. attempts w r = None)
          \<and> (\<exists>r. mediaRecorder w = Some r \<and> (unreleased w r \<longrightarrow> capturing w r)
                 \<and> (\<forall>r'. r' \<noteq> r \<longrightarrow> \<not> unreleased w r')))
     \<and> (state w = Processing \<longrightarrow>
          mediaRecorder w = None \<and> pendingStarts w = 0
          \<and> (\<exists>r. attempts w r \<noteq> None \<and> \<not> capturing w r
                 \<and> (unreleased w r \<longrightarrow> attempts w r = Some AwaitingStop)
                 \<and> (\<forall>r'. r' \<noteq> r \<longrightarrow> attempts w r' = None \<and> \<not> unreleased w r')))"

section \<open>Properties\<close>

lemmas segment_defs =
  toggleRecording_def stopIfRecording_def startRecording_def startRecording_granted_def
  startRecording_denied_def stopRecording_def recorder_stop_def onDataAvailable_def
  stopRecording_catch_def stopRecording_finally_def stopRecording_stopped_def
  stopRecording_transcribed_def stopRecording_composed_def notice_def setState_def

lemmas stage_defs =
  transcribeAudio_request_def transcribeAudio_response_def generateNote_request_def
  generateNote_response_def first_choice_content_def insertNote_def replaceSelection_def
  supportsTemperature_def newBlob_def blobTypeOf_def asciiLowerChar_def

lemmas sample_defs =
  sample_settings_def sample_editor_def sample_chunk_def transcript_ok_def note_ok_def
  DEFAULT_SETTINGS_def DEFAULT_MIME_TYPE_def

lemmas string_defs =
  trim_def isWhiteSpace_def toLowerCase_def toLowerChar_def char_of_def bit_Suc_0_iff

lemmas eval_defs =
  run_def initial_def segment_defs stage_defs sample_defs Let_def
  w_recorded_def w_transcribing_def w_composing_def

subsection \<open>The temperature field\<close>

lemma supportsTemperature_iff:
  "supportsTemperature m \<longleftrightarrow> toLowerCase (trim m) \<noteq> ''gpt-5-mini''"
  by (simp add: supportsTemperature_def)

lemma lower_trim_padded: "toLowerCase (trim '' GPT-5-mini'') = ''gpt-5-mini''"
  by (simp add: string_defs)

lemma lower_trim_other: "toLowerCase (trim ''gpt-4o-mini'') \<noteq> ''gpt-5-mini''"
  by (simp add: string_defs)

text \<open>
  C1, as stated: the temperature field is left out exactly when the identifier equals
  "gpt-5-mini" with case ignored. The identifier " GPT-5-mini", with a leading blank, is
  not equal to "gpt-5-mini" when only case is ignored, and the request built for it has
  no temperature: \<^verbatim>\<open>supportsTemperature\<close> trims the identifier before it compares.
\<close>

theorem C1_counterexample:
  "\<not> spec_equalsIgnoreCase '' GPT-5-mini'' ''gpt-5-mini''
   \<and> generateNote_request (sample_settings '' GPT-5-mini'') ''hello''
       = Inr \<lparr> nr_content_type = ''application/json'',
               nr_authorization = ''Bearer sk-1'',
               nr_body = \<lparr> model = '' GPT-5-mini'',
                           messages = [(System, ''Summarise.''),
                                       (User, ''Transcript:'' @ [CHR 0x0A] @ ''hello'')],
                           temperature = None \<rparr> \<rparr>"
proof -
  have "\<not> spec_equalsIgnoreCase '' GPT-5-mini'' ''gpt-5-mini''"
    by (simp add: spec_equalsIgnoreCase_def toLowerCase_def)
  moreover have "generateNote_request (sample_settings '' GPT-5-mini'') ''hello''
       = Inr \<lparr> nr_content_type = ''application/json'',
               nr_authorization = ''Bearer sk-1'',
               nr_body = \<lparr> model = '' GPT-5-mini'',
                           messages = [(System, ''Summarise.''),
                                       (User, ''Transcript:'' @ [CHR 0x0A] @ ''hello'')],
                           temperature = None \<rparr> \<rparr>"
    by (simp add: generateNote_request_def supportsTemperature_iff lower_trim_padded
          sample_settings_def Let_def)
  ultimately show ?thesis by simp
qed

text \<open>
  C1, amended: whenever a composition request is built (the API key and the note model
  are not empty), it carries the configured model, and it omits the temperature field
  exactly when the identifier, trimmed of surrounding white space and then lower-cased,
  is "gpt-5-mini"; for every other identifier the temperature is 0.2.
\<close>

theorem C1_temperature_after_trim:
  assumes "apiKey s \<noteq> []" and "noteModel s \<noteq> []"
  shows "\<exists>req. generateNote_request s transcript = Inr req
           \<and> model (nr_body req) = noteModel s
           \<and> (temperature (nr_body req) = None
                \<longleftrightarrow> toLowerCase (trim (noteModel s)) = ''gpt-5-mini'')
           \<and> (toLowerCase (trim (noteModel s)) \<noteq> ''gpt-5-mini''
                \<longrightarrow> temperature (nr_body req) = Some 0.2)"
  using assms by (simp add: generateNote_request_def supportsTemperature_iff Let_def)

theorem C1_temperature_after_trim_witness:
  "apiKey (sample_settings ''gpt-4o-mini'') \<noteq> []
   \<and> noteModel (sample_settings ''gpt-4o-mini'') \<noteq> []
   \<and> toLowerCase (trim (noteModel (sample_settings ''gpt-4o-mini''))) \<noteq> ''gpt-5-mini''
   \<and> (\<exists>req. generateNote_request (sample_settings ''gpt-4o-mini'') ''hello'' = Inr req
          \<and> temperature (nr_body req) = Some 0.2)"
proof -
  have a: "apiKey (sample_settings ''gpt-4o-mini'') \<noteq> []"
    by (simp add: sample_settings_def)
  have b: "noteModel (sample_settings ''gpt-4o-mini'') \<noteq> []"
    by (simp add: sample_settings_def)
  have c: "toLowerCase (trim (noteModel (sample_settings ''gpt-4o-mini''))) \<noteq> ''gpt-5-mini''"
    using lower_trim_other by (simp add: sample_settings_def)
  from C1_temperature_after_trim [OF a b, of "''hello''"] a b c show ?thesis by blast
qed

subsection \<open>Stage A: the transcript\<close>

text \<open>
  C4: with a usable configuration, a transcription response whose \<^verbatim>\<open>text\<close> is
  "  hello world  " makes Stage A return "hello world"; an empty or absent
  \<^verbatim>\<open>text\<close> makes it fail with the error "Transcription returned no text." (the
  EmptyResult of the specification). In general the text is trimmed first, and the result
  is the trimmed text unless that is empty.
\<close>

theorem C4_transcript_trimmed_or_empty_result:
  assumes "apiKey s \<noteq> []" and "transcriptionModel s \<noteq> []"
  shows "transcribeAudio s audioBlob
             (Response True body (Inr (TranscriptionJson (Some ''  hello world  ''))))
           = Inr ''hello world''
         \<and> transcribeAudio s audioBlob (Response True body (Inr (TranscriptionJson (Some []))))
           = Inl (Error ''Transcription returned no text.'')
         \<and> transcribeAudio s audioBlob (Response True body (Inr (TranscriptionJson None)))
           = Inl (Error ''Transcription returned no text.'')
         \<and> transcribeAudio s audioBlob (Response True body (Inr (TranscriptionJson (Some t))))
           = (if trim t = [] then Inl (Error ''Transcription returned no text.'')
              else Inr (trim t))"
  using assms
  by (simp add: transcribeAudio_def transcribeAudio_request_def transcribeAudio_response_def
        Let_def trim_def isWhiteSpace_def)

theorem C4_transcript_trimmed_or_empty_result_witness:
  "apiKey (sample_settings ''gpt-4o-mini'') \<noteq> []
   \<and> transcriptionModel (sample_settings ''gpt-4o-mini'') \<noteq> []
   \<and> transcribeAudio (sample_settings ''gpt-4o-mini'') sample_chunk
        (Response True [] (Inr (TranscriptionJson (Some ''  hello world  ''))))
      = Inr ''hello world''
   \<and> transcribeAudio (sample_settings ''gpt-4o-mini'') sample_chunk
        (Response True [] (Inr (TranscriptionJson None)))
      = Inl (Error ''Transcription returned no text.'')"
proof -
  have a: "apiKey (sample_settings ''gpt-4o-mini'') \<noteq> []"
    by (simp add: sample_settings_def)
  have b: "transcriptionModel (sample_settings ''gpt-4o-mini'') \<noteq> []"
    by (simp add: sample_settings_def)
  from C4_transcript_trimmed_or_empty_result [OF a b, of sample_chunk "[]" "[]"] a b
  show ?thesis by simp
qed

subsection \<open>The blocks of \<^verbatim>\<open>stopRecording\<close>\<close>

lemma notice_attempts [simp]: "attempts (notice msg w) = attempts w"
  by (simp add: notice_def)

lemma catch_attempts [simp]: "attempts (stopRecording_catch e w) = attempts w"
  by (simp add: stopRecording_catch_def)

lemma finally_state [simp]: "state (stopRecording_finally r w) = Idle"
  by (simp add: stopRecording_finally_def setState_def Let_def)

lemma finally_chunks [simp]: "chunks (stopRecording_finally r w) = []"
  by (simp add: stopRecording_finally_def setState_def Let_def)

lemma finally_attempts [simp]:
  "attempts (stopRecording_finally r w) = (attempts w)(r := None)"
  by (simp add: stopRecording_finally_def setState_def Let_def)

lemma w_stopping_attempt: "attempts w_stopping 0 = Some AwaitingStop"
  by (simp add: w_stopping_def run_def initial_def segment_defs Let_def)

lemma w_composing_attempt: "attempts w_composing 0 = Some AwaitingNote"
  by (simp add: eval_defs string_defs)

subsection \<open>Failed responses\<close>

lemma notice_fields [simp]:
  "state (notice msg w) = state w"
  "chunks (notice msg w) = chunks w"
  "mediaRecorder (notice msg w) = mediaRecorder w"
  "activeView (notice msg w) = activeView w"
  "noteRequests (notice msg w) = noteRequests w"
  "transcriptionRequests (notice msg w) = transcriptionRequests w"
  "notices (notice msg w) = notices w @ [msg]"
  "settings (notice msg w) = settings w"
  "pendingStarts (notice msg w) = pendingStarts w"
  "recorders (notice msg w) = recorders w"
  "created (notice msg w) = created w"
  by (simp_all add: notice_def)

lemma finally_fields [simp]:
  "notices (stopRecording_finally r w) = notices w"
  "activeView (stopRecording_finally r w) = activeView w"
  "noteRequests (stopRecording_finally r w) = noteRequests w"
  "transcriptionRequests (stopRecording_finally r w) = transcriptionRequests w"
  "mediaRecorder (stopRecording_finally r w) = mediaRecorder w"
  "settings (stopRecording_finally r w) = settings w"
  "pendingStarts (stopRecording_finally r w) = pendingStarts w"
  "recorders (stopRecording_finally r w) = recorders w"
  "created (stopRecording_finally r w) = created w"
  by (simp_all add: stopRecording_finally_def setState_def Let_def)

lemma catch_Error [simp]: "stopRecording_catch (Error msg) w = notice msg w"
  by (simp add: stopRecording_catch_def)

lemma sublist_after_prefix: "sublist b (p @ b)"
  using sublist_appendI [of b p "[]"] by simp

lemma w_transcribing_attempt: "attempts w_transcribing 0 = Some AwaitingTranscription"
  by (simp add: eval_defs)

text \<open>
  C5: a response that is not \<^verbatim>\<open>ok\<close> ends the attempt. After a failed transcription
  the notice is "Transcription failed: " followed by the response body, and no
  composition request is sent; after a failed composition the notice is
  "Note creation failed: " followed by the body, and the document is not touched. In both
  cases the attempt is over and the state is \<open>Idle\<close>.
\<close>

theorem C5_failed_response_stops_pipeline:
  "(attempts w r = Some AwaitingTranscription \<longrightarrow>
      (let w' = step w (TranscriptionSettled r (Response False body js))
       in notices w' = notices w @ [''Transcription failed: '' @ body]
          \<and> sublist body (last (notices w'))
          \<and> noteRequests w' = noteRequests w
          \<and> activeView w' = activeView w
          \<and> attempts w' r = None \<and> state w' = Idle)) \<and>
   (attempts w r = Some AwaitingNote \<longrightarrow>
      (let w' = step w (NoteSettled r (Response False body js'))
       in notices w' = notices w @ [''Note creation failed: '' @ body]
          \<and> sublist body (last (notices w'))
          \<and> activeView w' = activeView w
          \<and> noteRequests w' = noteRequests w
          \<and> attempts w' r = None \<and> state w' = Idle))"
  using sublist_after_prefix [of body "''Transcription failed: ''"]
        sublist_after_prefix [of body "''Note creation failed: ''"]
  by (simp add: stopRecording_transcribed_def stopRecording_composed_def
        transcribeAudio_response_def generateNote_response_def Let_def)

theorem C5_failed_response_stops_pipeline_witness:
  "attempts w_transcribing 0 = Some AwaitingTranscription
   \<and> last (notices (step w_transcribing
        (TranscriptionSettled 0 (Response False ''invalid api key'' (Inl NonError)))))
      = ''Transcription failed: invalid api key''
   \<and> noteRequests (step w_transcribing
        (TranscriptionSettled 0 (Response False ''invalid api key'' (Inl NonError))))
      = noteRequests w_transcribing
   \<and> attempts w_composing 0 = Some AwaitingNote
   \<and> last (notices (step w_composing
        (NoteSettled 0 (Response False ''model overloaded'' (Inl NonError)))))
      = ''Note creation failed: model overloaded''
   \<and> activeView (step w_composing
        (NoteSettled 0 (Response False ''model overloaded'' (Inl NonError))))
      = activeView w_composing"
  using C5_failed_response_stops_pipeline
          [of w_transcribing 0 "''invalid api key''" "Inl NonError" "Inl NonError"]
        C5_failed_response_stops_pipeline
          [of w_composing 0 "''model overloaded''" "Inl NonError" "Inl NonError"]
        w_transcribing_attempt w_composing_attempt
  by (simp add: Let_def)

subsection \<open>Delivery\<close>

lemma w_composing_view: "activeView w_composing = Some sample_editor"
  by (simp add: eval_defs string_defs)

lemma note_ok_milk: "generateNote_response (note_ok ''- milk'') = Inr ''- milk''"
  by (simp add: generateNote_response_def first_choice_content_def note_ok_def string_defs)

text \<open>
  C6: \<^verbatim>\<open>insertNote\<close> replaces the selection by the note followed by one line feed
  ("Title\n- point" is inserted as "Title\n- point\n"), and throws "Open a note to insert
  the transcript." when there is no active Markdown view. In the attempt: once Stage B
  has returned the note, an open editor receives exactly that text and the success
  notice follows; without an editor the world that results is the one the
  \<^verbatim>\<open>catch\<close> and \<^verbatim>\<open>finally\<close> blocks make of the error alone: the note text is
  kept nowhere, the attempt is over and no request is sent again.
\<close>

theorem C6_note_inserted_with_one_line_break:
  "insertNote note (Some ed)
     = Inr (ed\<lparr> before_cursor := before_cursor ed @ note @ [CHR 0x0A], selection := [] \<rparr>)
   \<and> insertNote (''Title'' @ [CHR 0x0A] @ ''- point'') (Some ed)
     = Inr (ed\<lparr> before_cursor := before_cursor ed @ ''Title'' @ [CHR 0x0A] @ ''- point'' @ [CHR 0x0A],
                selection := [] \<rparr>)
   \<and> insertNote note None = Inl (Error ''Open a note to insert the transcript.'')
   \<and> (attempts w r = Some AwaitingNote \<and> generateNote_response fr = Inr note \<longrightarrow>
        (let w' = step w (NoteSettled r fr)
         in (activeView w = Some ed \<longrightarrow>
               activeView w'
                 = Some (ed\<lparr> before_cursor := before_cursor ed @ note @ [CHR 0x0A],
                             selection := [] \<rparr>)
               \<and> notices w' = notices w @ [''Voice note inserted.''])
          \<and> (activeView w = None \<longrightarrow>
               w' = stopRecording_finally r
                      (notice ''Open a note to insert the transcript.'' w))
          \<and> attempts w' r = None \<and> state w' = Idle
          \<and> noteRequests w' = noteRequests w
          \<and> transcriptionRequests w' = transcriptionRequests w))"
  by (cases "activeView w")
     (simp_all add: stopRecording_composed_def insertNote_def replaceSelection_def Let_def)

theorem C6_note_inserted_with_one_line_break_witness:
  "attempts w_composing 0 = Some AwaitingNote
   \<and> generateNote_response (note_ok ''- milk'') = Inr ''- milk''
   \<and> activeView w_composing = Some sample_editor
   \<and> activeView (step w_composing (NoteSettled 0 (note_ok ''- milk'')))
      = Some \<lparr> before_cursor = ''# Log - milk'' @ [CHR 0x0A], selection = [],
               after_cursor = '' end'' \<rparr>
   \<and> notices (step w_composing (NoteSettled 0 (note_ok ''- milk'')))
      = notices w_composing @ [''Voice note inserted.'']"
  using C6_note_inserted_with_one_line_break
          [of "''- milk''" sample_editor w_composing 0 "note_ok ''- milk''"]
        w_composing_attempt note_ok_milk w_composing_view
  by (simp add: Let_def sample_editor_def)

subsection \<open>Every outcome of an attempt\<close>

text \<open>
  A call of \<^verbatim>\<open>stopRecording\<close> is resumed three times at most: by the stop event of
  its recorder, by the transcription response, by the composition response. Each time it
  either goes on to the next request or ends, and it ends in the same way whatever made
  it end.
\<close>

lemma catch_shown: "stopRecording_catch e w = notice (shown_message e) w"
  by (simp add: stopRecording_catch_def shown_message_def)

lemma settled_finally:
  "settled_with w (stopRecording_finally r (stopRecording_catch e w)) r (shown_message e)"
  by (simp add: settled_with_def catch_shown stopRecording_finally_def setState_def notice_def
        Let_def)

lemma settled_finally_notice:
  "settled_with w (stopRecording_finally r (notice msg (w\<lparr> activeView := v \<rparr>))) r msg"
  by (simp add: settled_with_def stopRecording_finally_def setState_def notice_def Let_def)

lemma stop_event_outcome:
  assumes "attempts w r = Some AwaitingStop" and "recorders w r = Some m"
    and "status m \<noteq> Released"
  shows "case transcribeAudio_request (settings w)
                (newBlob (chunks w) (if mimeType m = [] then ''audio/webm'' else mimeType m)) of
           Inl e \<Rightarrow> settled_with w (step w (RecorderStopped r)) r (shown_message e)
         | Inr req \<Rightarrow>
             attempts (step w (RecorderStopped r)) r = Some AwaitingTranscription
             \<and> transcriptionRequests (step w (RecorderStopped r))
                = transcriptionRequests w @ [req]"
proof (cases "transcribeAudio_request (settings w)
                (newBlob (chunks w) (if mimeType m = [] then ''audio/webm'' else mimeType m))")
  case (Inl e)
  let ?w = "w\<lparr> recorders := (recorders w)(r \<mapsto> m\<lparr> status := Released \<rparr>) \<rparr>"
  have "step w (RecorderStopped r) = stopRecording_finally r (stopRecording_catch e ?w)"
    using assms Inl by (simp add: stopRecording_stopped_def Let_def)
  moreover have "settled_with ?w (stopRecording_finally r (stopRecording_catch e ?w)) r
                   (shown_message e)"
    by (rule settled_finally)
  ultimately have "settled_with w (step w (RecorderStopped r)) r (shown_message e)"
    by (simp add: settled_with_def)
  with Inl show ?thesis by simp
next
  case (Inr req)
  with assms show ?thesis by (simp add: stopRecording_stopped_def Let_def)
qed

lemma transcription_outcome:
  assumes "attempts w r = Some AwaitingTranscription"
  shows "case transcribeAudio_response fr of
           Inl e \<Rightarrow> settled_with w (step w (TranscriptionSettled r fr)) r (shown_message e)
         | Inr transcript \<Rightarrow>
             (case generateNote_request (settings w) transcript of
                Inl e \<Rightarrow> settled_with w (step w (TranscriptionSettled r fr)) r (shown_message e)
              | Inr req \<Rightarrow>
                  attempts (step w (TranscriptionSettled r fr)) r = Some AwaitingNote
                  \<and> noteRequests (step w (TranscriptionSettled r fr)) = noteRequests w @ [req])"
  using assms settled_finally [of w r]
  by (simp add: stopRecording_transcribed_def split: sum.splits)

lemma note_outcome:
  assumes "attempts w r = Some AwaitingNote"
  shows "case generateNote_response fr of
           Inl e \<Rightarrow> settled_with w (step w (NoteSettled r fr)) r (shown_message e)
         | Inr note \<Rightarrow>
             (case activeView w of
                None \<Rightarrow> settled_with w (step w (NoteSettled r fr)) r
                          ''Open a note to insert the transcript.''
              | Some ed \<Rightarrow> settled_with w (step w (NoteSettled r fr)) r ''Voice note inserted.'')"
proof (cases "generateNote_response fr")
  case (Inl e)
  with assms settled_finally [of w r e] show ?thesis
    by (simp add: stopRecording_composed_def)
next
  case (Inr n)
  show ?thesis
  proof (cases "activeView w")
    case None
    with assms Inr settled_finally [of w r "Error ''Open a note to insert the transcript.''"]
    show ?thesis
      by (simp add: stopRecording_composed_def insertNote_def shown_message_def)
  next
    case (Some ed)
    have "settled_with w (stopRecording_finally r
            (notice ''Voice note inserted.''
               (w\<lparr> activeView := Some (replaceSelection (n @ [CHR 0x0A]) ed) \<rparr>))) r
            ''Voice note inserted.''"
      by (rule settled_finally_notice)
    with assms Inr Some show ?thesis
      by (simp add: stopRecording_composed_def insertNote_def)
  qed
qed

text \<open>
  C2: a toggle in state \<open>Recording\<close> begins an attempt for the held recorder. From the
  moment the recorder's stop event has arrived the attempt is inside the \<^verbatim>\<open>try\<close>
  block, and at each of its three resumptions every outcome but the one that sends the
  next request ends it with the state \<open>Idle\<close>, the listener told, the chunk buffer empty
  and one notice: a missing setting, a rejected \<^verbatim>\<open>fetch\<close>, a response that is not
  \<^verbatim>\<open>ok\<close>, a body that is not JSON, an empty result, no open note, and success alike.
  The last resumption always ends the attempt. (The wait for the stop event is before
  the \<^verbatim>\<open>try\<close> block: an attempt whose recorder was inactive already waits for
  ever and never settles, see \<open>self_stopped_never_settles\<close>.)
\<close>

theorem C2_every_outcome_ends_idle_and_empty:
  "(state w = Recording \<and> mediaRecorder w = Some r \<and> recorders w r = Some m
      \<and> status m = Capturing \<longrightarrow>
      state (step w ToggleRecording) = Processing
      \<and> attempts (step w ToggleRecording) r = Some AwaitingStop
      \<and> map_option status (recorders (step w ToggleRecording) r) = Some Stopping)
   \<and> (attempts w r = Some AwaitingStop \<and> recorders w r = Some m \<and> status m \<noteq> Released \<longrightarrow>
        (case transcribeAudio_request (settings w)
                (newBlob (chunks w) (if mimeType m = [] then ''audio/webm'' else mimeType m)) of
           Inl e \<Rightarrow> settled_with w (step w (RecorderStopped r)) r (shown_message e)
         | Inr req \<Rightarrow> attempts (step w (RecorderStopped r)) r = Some AwaitingTranscription))
   \<and> (attempts w r = Some AwaitingTranscription \<longrightarrow>
        (case transcribeAudio_response fr of
           Inl e \<Rightarrow> settled_with w (step w (TranscriptionSettled r fr)) r (shown_message e)
         | Inr transcript \<Rightarrow>
             (case generateNote_request (settings w) transcript of
                Inl e \<Rightarrow> settled_with w (step w (TranscriptionSettled r fr)) r (shown_message e)
              | Inr req \<Rightarrow>
                  attempts (step w (TranscriptionSettled r fr)) r = Some AwaitingNote)))
   \<and> (attempts w r = Some AwaitingNote \<longrightarrow>
        (case generateNote_response fr' of
           Inl e \<Rightarrow> settled_with w (step w (NoteSettled r fr')) r (shown_message e)
         | Inr note \<Rightarrow>
             (case activeView w of
                None \<Rightarrow> settled_with w (step w (NoteSettled r fr')) r
                          ''Open a note to insert the transcript.''
              | Some ed \<Rightarrow>
                  settled_with w (step w (NoteSettled r fr')) r ''Voice note inserted.'')))"
proof (intro conjI impI)
  assume "state w = Recording \<and> mediaRecorder w = Some r \<and> recorders w r = Some m
      \<and> status m = Capturing"
  then show "state (step w ToggleRecording) = Processing"
    and "attempts (step w ToggleRecording) r = Some AwaitingStop"
    and "map_option status (recorders (step w ToggleRecording) r) = Some Stopping"
    by (simp_all add: toggleRecording_def stopRecording_def recorder_stop_def setState_def Let_def)
next
  assume a: "attempts w r = Some AwaitingStop \<and> recorders w r = Some m \<and> status m \<noteq> Released"
  from a have o: "case transcribeAudio_request (settings w)
                (newBlob (chunks w) (if mimeType m = [] then ''audio/webm'' else mimeType m)) of
           Inl e \<Rightarrow> settled_with w (step w (RecorderStopped r)) r (shown_message e)
         | Inr req \<Rightarrow>
             attempts (step w (RecorderStopped r)) r = Some AwaitingTranscription
             \<and> transcriptionRequests (step w (RecorderStopped r))
                = transcriptionRequests w @ [req]"
    by (intro stop_event_outcome) simp_all
  show "case transcribeAudio_request (settings w)
                (newBlob (chunks w) (if mimeType m = [] then ''audio/webm'' else mimeType m)) of
           Inl e \<Rightarrow> settled_with w (step w (RecorderStopped r)) r (shown_message e)
         | Inr req \<Rightarrow> attempts (step w (RecorderStopped r)) r = Some AwaitingTranscription"
  proof (cases "transcribeAudio_request (settings w)
                (newBlob (chunks w) (if mimeType m = [] then ''audio/webm'' else mimeType m))")
    case (Inl e)
    with o show ?thesis by (simp split del: if_split)
  next
    case (Inr req)
    with o show ?thesis by (simp split del: if_split)
  qed
next
  assume a: "attempts w r = Some AwaitingTranscription"
  from transcription_outcome [OF a, of fr]
  show "case transcribeAudio_response fr of
           Inl e \<Rightarrow> settled_with w (step w (TranscriptionSettled r fr)) r (shown_message e)
         | Inr transcript \<Rightarrow>
             (case generateNote_request (settings w) transcript of
                Inl e \<Rightarrow> settled_with w (step w (TranscriptionSettled r fr)) r (shown_message e)
              | Inr req \<Rightarrow>
                  attempts (step w (TranscriptionSettled r fr)) r = Some AwaitingNote)"
    by (auto split: sum.splits)
next
  assume a: "attempts w r = Some AwaitingNote"
  from note_outcome [OF a, of fr']
  show "case generateNote_response fr' of
           Inl e \<Rightarrow> settled_with w (step w (NoteSettled r fr')) r (shown_message e)
         | Inr note \<Rightarrow>
             (case activeView w of
                None \<Rightarrow> settled_with w (step w (NoteSettled r fr')) r
                          ''Open a note to insert the transcript.''
              | Some ed \<Rightarrow>
                  settled_with w (step w (NoteSettled r fr')) r ''Voice note inserted.'')" .
qed


text \<open>
  The theorem at a missing API key, an empty transcription, a closed note and a
  successful delivery.
\<close>

lemma w_stopping_facts:
  "attempts w_stopping 0 = Some AwaitingStop"
  "recorders w_stopping 0 = Some \<lparr> mimeType = DEFAULT_MIME_TYPE, status = Stopping \<rparr>"
  "transcribeAudio_request (settings w_stopping) (newBlob (chunks w_stopping) DEFAULT_MIME_TYPE)
     = Inl (Error ''Add your OpenAI API key in settings.'')"
  by (simp_all add: w_stopping_def eval_defs)

lemma w_no_view_facts:
  "attempts w_no_view 0 = Some AwaitingNote" "activeView w_no_view = None"
  by (simp_all add: w_no_view_def w_composing_attempt)

lemma empty_text_response:
  "transcribeAudio_response (Response True [] (Inr (TranscriptionJson None)))
     = Inl (Error ''Transcription returned no text.'')"
  by (simp add: transcribeAudio_response_def)

theorem C2_every_outcome_ends_idle_and_empty_witness:
  "attempts w_stopping 0 = Some AwaitingStop
   \<and> settled_with w_stopping (step w_stopping (RecorderStopped 0)) 0
        ''Add your OpenAI API key in settings.''
   \<and> attempts w_transcribing 0 = Some AwaitingTranscription
   \<and> settled_with w_transcribing
        (step w_transcribing
           (TranscriptionSettled 0 (Response True [] (Inr (TranscriptionJson None))))) 0
        ''Transcription returned no text.''
   \<and> attempts w_no_view 0 = Some AwaitingNote
   \<and> settled_with w_no_view (step w_no_view (NoteSettled 0 (note_ok ''- milk''))) 0
        ''Open a note to insert the transcript.''
   \<and> attempts w_composing 0 = Some AwaitingNote
   \<and> settled_with w_composing (step w_composing (NoteSettled 0 (note_ok ''- milk''))) 0
        ''Voice note inserted.''"
proof -
  have m: "mimeType \<lparr> mimeType = DEFAULT_MIME_TYPE, status = Stopping \<rparr> \<noteq> []"
          "status \<lparr> mimeType = DEFAULT_MIME_TYPE, status = Stopping \<rparr> \<noteq> Released"
    by (simp_all add: DEFAULT_MIME_TYPE_def)
  from C2_every_outcome_ends_idle_and_empty
         [of w_stopping 0 "\<lparr> mimeType = DEFAULT_MIME_TYPE, status = Stopping \<rparr>"]
       w_stopping_facts m
  have 1: "settled_with w_stopping (step w_stopping (RecorderStopped 0)) 0
        ''Add your OpenAI API key in settings.''"
    by (simp add: shown_message_def)
  from C2_every_outcome_ends_idle_and_empty
         [of w_transcribing 0 _ "Response True [] (Inr (TranscriptionJson None))"]
       w_transcribing_attempt empty_text_response
  have 2: "settled_with w_transcribing
        (step w_transcribing
           (TranscriptionSettled 0 (Response True [] (Inr (TranscriptionJson None))))) 0
        ''Transcription returned no text.''"
    by (simp add: shown_message_def)
  from C2_every_outcome_ends_idle_and_empty [of w_no_view 0 _ _ "note_ok ''- milk''"]
       w_no_view_facts note_ok_milk
  have 3: "settled_with w_no_view (step w_no_view (NoteSettled 0 (note_ok ''- milk''))) 0
        ''Open a note to insert the transcript.''"
    by simp
  from C2_every_outcome_ends_idle_and_empty [of w_composing 0 _ _ "note_ok ''- milk''"]
       w_composing_attempt w_composing_view note_ok_milk
  have 4: "settled_with w_composing (step w_composing (NoteSettled 0 (note_ok ''- milk''))) 0
        ''Voice note inserted.''"
    by simp
  from 1 2 3 4 w_stopping_facts(1) w_transcribing_attempt w_no_view_facts(1) w_composing_attempt
  show ?thesis by simp
qed


text \<open>The error kinds one by one, in any world.\<close>

lemma configuration_missing_settles:
  "(attempts w r = Some AwaitingStop \<and> recorders w r = Some m \<and> status m \<noteq> Released
      \<and> apiKey (settings w) = [] \<longrightarrow>
      settled_with w (step w (RecorderStopped r)) r ''Add your OpenAI API key in settings.'')
   \<and> (attempts w r = Some AwaitingStop \<and> recorders w r = Some m \<and> status m \<noteq> Released
      \<and> apiKey (settings w) \<noteq> [] \<and> transcriptionModel (settings w) = [] \<longrightarrow>
      settled_with w (step w (RecorderStopped r)) r ''Set a transcription model in settings.'')
   \<and> (attempts w r = Some AwaitingTranscription \<and> transcribeAudio_response fr = Inr t
      \<and> apiKey (settings w) = [] \<longrightarrow>
      settled_with w (step w (TranscriptionSettled r fr)) r
        ''Add your OpenAI API key in settings.'')
   \<and> (attempts w r = Some AwaitingTranscription \<and> transcribeAudio_response fr = Inr t
      \<and> apiKey (settings w) \<noteq> [] \<and> noteModel (settings w) = [] \<longrightarrow>
      settled_with w (step w (TranscriptionSettled r fr)) r
        ''Set a note creation model in settings.'')"
proof (intro conjI impI)
  assume a: "attempts w r = Some AwaitingStop \<and> recorders w r = Some m \<and> status m \<noteq> Released
      \<and> apiKey (settings w) = []"
  then have "attempts w r = Some AwaitingStop" "recorders w r = Some m" "status m \<noteq> Released"
    by simp_all
  from stop_event_outcome [OF this] a
  show "settled_with w (step w (RecorderStopped r)) r ''Add your OpenAI API key in settings.''"
    by (simp add: transcribeAudio_request_def shown_message_def split del: if_split)
next
  assume a: "attempts w r = Some AwaitingStop \<and> recorders w r = Some m \<and> status m \<noteq> Released
      \<and> apiKey (settings w) \<noteq> [] \<and> transcriptionModel (settings w) = []"
  then have "attempts w r = Some AwaitingStop" "recorders w r = Some m" "status m \<noteq> Released"
    by simp_all
  from stop_event_outcome [OF this] a
  show "settled_with w (step w (RecorderStopped r)) r ''Set a transcription model in settings.''"
    by (simp add: transcribeAudio_request_def shown_message_def split del: if_split)
next
  assume a: "attempts w r = Some AwaitingTranscription \<and> transcribeAudio_response fr = Inr t
      \<and> apiKey (settings w) = []"
  then have "attempts w r = Some AwaitingTranscription" by simp
  from transcription_outcome [OF this, of fr] a
  show "settled_with w (step w (TranscriptionSettled r fr)) r
        ''Add your OpenAI API key in settings.''"
    by (simp add: generateNote_request_def shown_message_def)
next
  assume a: "attempts w r = Some AwaitingTranscription \<and> transcribeAudio_response fr = Inr t
      \<and> apiKey (settings w) \<noteq> [] \<and> noteModel (settings w) = []"
  then have "attempts w r = Some AwaitingTranscription" by simp
  from transcription_outcome [OF this, of fr] a
  show "settled_with w (step w (TranscriptionSettled r fr)) r
        ''Set a note creation model in settings.''"
    by (simp add: generateNote_request_def shown_message_def)
qed

lemma empty_result_settles:
  "(attempts w r = Some AwaitingTranscription
      \<and> (case t of None \<Rightarrow> True | Some x \<Rightarrow> trim x = []) \<longrightarrow>
      settled_with w
        (step w (TranscriptionSettled r (Response True body (Inr (TranscriptionJson t))))) r
        ''Transcription returned no text.'')
   \<and> (attempts w r = Some AwaitingNote
      \<and> (first_choice_content d = None \<or> first_choice_content d = Some []) \<longrightarrow>
      settled_with w (step w (NoteSettled r (Response True body (Inr d)))) r
        ''Note creation returned no content.'')"
proof (intro conjI impI)
  assume a: "attempts w r = Some AwaitingTranscription
      \<and> (case t of None \<Rightarrow> True | Some x \<Rightarrow> trim x = [])"
  then have "attempts w r = Some AwaitingTranscription" by simp
  from transcription_outcome [OF this, of "Response True body (Inr (TranscriptionJson t))"] a
  show "settled_with w
        (step w (TranscriptionSettled r (Response True body (Inr (TranscriptionJson t))))) r
        ''Transcription returned no text.''"
    by (cases t) (simp_all add: transcribeAudio_response_def shown_message_def)
next
  assume a: "attempts w r = Some AwaitingNote
      \<and> (first_choice_content d = None \<or> first_choice_content d = Some [])"
  then have "attempts w r = Some AwaitingNote" by simp
  from note_outcome [OF this, of "Response True body (Inr d)"] a
  show "settled_with w (step w (NoteSettled r (Response True body (Inr d)))) r
        ''Note creation returned no content.''"
    by (auto simp: generateNote_response_def shown_message_def)
qed

lemma failed_or_rejected_call_settles:
  "(attempts w r = Some AwaitingTranscription \<longrightarrow>
      settled_with w (step w (TranscriptionSettled r (Response False body js))) r
        (''Transcription failed: '' @ body)
      \<and> settled_with w (step w (TranscriptionSettled r (Rejected e))) r (shown_message e))
   \<and> (attempts w r = Some AwaitingNote \<longrightarrow>
      settled_with w (step w (NoteSettled r (Response False body js'))) r
        (''Note creation failed: '' @ body)
      \<and> settled_with w (step w (NoteSettled r (Rejected e))) r (shown_message e))"
proof (intro conjI impI)
  assume a: "attempts w r = Some AwaitingTranscription"
  from transcription_outcome [OF a, of "Response False body js"]
  show "settled_with w (step w (TranscriptionSettled r (Response False body js))) r
        (''Transcription failed: '' @ body)"
    by (simp add: transcribeAudio_response_def shown_message_def)
  from transcription_outcome [OF a, of "Rejected e"]
  show "settled_with w (step w (TranscriptionSettled r (Rejected e))) r (shown_message e)"
    by (simp add: transcribeAudio_response_def)
next
  assume a: "attempts w r = Some AwaitingNote"
  from note_outcome [OF a, of "Response False body js'"]
  show "settled_with w (step w (NoteSettled r (Response False body js'))) r
        (''Note creation failed: '' @ body)"
    by (simp add: generateNote_response_def shown_message_def)
  from note_outcome [OF a, of "Rejected e"]
  show "settled_with w (step w (NoteSettled r (Rejected e))) r (shown_message e)"
    by (simp add: generateNote_response_def)
qed

lemma no_editable_target_settles:
  assumes "attempts w r = Some AwaitingNote" and "generateNote_response fr = Inr n"
    and "activeView w = None"
  shows "settled_with w (step w (NoteSettled r fr)) r ''Open a note to insert the transcript.''"
  using note_outcome [OF assms(1), of fr] assms(2,3) by simp

subsection \<open>Stage B: the content is tested before it is trimmed\<close>

lemma trim_all_white:
  assumes "\<forall>c \<in> set s. isWhiteSpace c"
  shows "trim s = []"
proof -
  from assms have d: "dropWhile isWhiteSpace s = []"
    unfolding dropWhile_eq_Nil_conv .
  show ?thesis unfolding trim_def d by simp
qed

text \<open>
  C10: with a usable configuration, Stage B's result for a response that is \<^verbatim>\<open>ok\<close>
  depends on the content of the first choice as it arrives: absent or empty, Stage B
  fails with "Note creation returned no content."; otherwise it succeeds with the trimmed
  content, and the emptiness of the trimmed content is not tested. A content that is not
  empty and consists of white space only (three blanks, say) therefore makes Stage B
  succeed with the empty string, whatever choices follow the first, and delivery inserts
  a single line feed and reports success.
\<close>

theorem C10_content_checked_before_trimming:
  assumes "apiKey s \<noteq> []" and "noteModel s \<noteq> []"
  shows "generateNote s transcript (Response True body (Inr d))
           = (case first_choice_content d of
                None \<Rightarrow> Inl (Error ''Note creation returned no content.'')
              | Some c \<Rightarrow>
                  if c = [] then Inl (Error ''Note creation returned no content.'')
                  else Inr (trim c))
         \<and> first_choice_content (ChatJson (Some (ChatChoice (Some (ChatMessage (Some c))) # rest)))
           = Some c
         \<and> (c \<noteq> [] \<and> (\<forall>ch \<in> set c. isWhiteSpace ch) \<longrightarrow>
              generateNote s transcript
                (Response True body
                   (Inr (ChatJson (Some (ChatChoice (Some (ChatMessage (Some c))) # rest)))))
                = Inr []
              \<and> insertNote [] (Some ed)
                = Inr (ed\<lparr> before_cursor := before_cursor ed @ [CHR 0x0A], selection := [] \<rparr>)
              \<and> (attempts w r = Some AwaitingNote \<and> activeView w = Some ed \<longrightarrow>
                   (let w' = step w (NoteSettled r
                                (Response True body
                                   (Inr (ChatJson (Some (ChatChoice (Some (ChatMessage (Some c)))
                                                         # rest))))))
                    in activeView w'
                         = Some (ed\<lparr> before_cursor := before_cursor ed @ [CHR 0x0A],
                                     selection := [] \<rparr>)
                       \<and> notices w' = notices w @ [''Voice note inserted.'']
                       \<and> state w' = Idle \<and> attempts w' r = None)))"
proof (intro conjI impI)
  show "generateNote s transcript (Response True body (Inr d))
           = (case first_choice_content d of
                None \<Rightarrow> Inl (Error ''Note creation returned no content.'')
              | Some c \<Rightarrow>
                  if c = [] then Inl (Error ''Note creation returned no content.'')
                  else Inr (trim c))"
    using assms
    by (simp add: generateNote_def generateNote_request_def generateNote_response_def Let_def)
next
  show fc: "first_choice_content (ChatJson (Some (ChatChoice (Some (ChatMessage (Some c))) # rest)))
           = Some c"
    by (simp add: first_choice_content_def)
next
  assume b: "c \<noteq> [] \<and> (\<forall>ch \<in> set c. isWhiteSpace ch)"
  then have t: "trim c = []" by (simp add: trim_all_white)
  from b t assms
  show "generateNote s transcript
          (Response True body
             (Inr (ChatJson (Some (ChatChoice (Some (ChatMessage (Some c))) # rest)))))
          = Inr []"
    by (simp add: generateNote_def generateNote_request_def generateNote_response_def
          first_choice_content_def Let_def)
next
  show "insertNote [] (Some ed)
          = Inr (ed\<lparr> before_cursor := before_cursor ed @ [CHR 0x0A], selection := [] \<rparr>)"
    by (simp add: insertNote_def replaceSelection_def)
next
  assume b: "c \<noteq> [] \<and> (\<forall>ch \<in> set c. isWhiteSpace ch)"
    and a: "attempts w r = Some AwaitingNote \<and> activeView w = Some ed"
  from b have t: "trim c = []" by (simp add: trim_all_white)
  from a b t
  show "let w' = step w (NoteSettled r
                    (Response True body
                       (Inr (ChatJson (Some (ChatChoice (Some (ChatMessage (Some c)))
                                             # rest))))))
        in activeView w'
             = Some (ed\<lparr> before_cursor := before_cursor ed @ [CHR 0x0A], selection := [] \<rparr>)
           \<and> notices w' = notices w @ [''Voice note inserted.'']
           \<and> state w' = Idle \<and> attempts w' r = None"
    by (simp add: stopRecording_composed_def generateNote_response_def first_choice_content_def
          insertNote_def replaceSelection_def Let_def)
qed

theorem C10_content_checked_before_trimming_witness:
  "apiKey (sample_settings ''gpt-4o-mini'') \<noteq> []
   \<and> noteModel (sample_settings ''gpt-4o-mini'') \<noteq> []
   \<and> ''   '' \<noteq> [] \<and> isWhiteSpace (CHR '' '')
   \<and> generateNote (sample_settings ''gpt-4o-mini'') ''buy milk'' (note_ok ''   '') = Inr []
   \<and> generateNote (sample_settings ''gpt-4o-mini'') ''buy milk'' (note_ok [])
      = Inl (Error ''Note creation returned no content.'')
   \<and> generateNote (sample_settings ''gpt-4o-mini'') ''buy milk'' (note_ok '' - milk '')
      = Inr ''- milk''
   \<and> attempts w_composing 0 = Some AwaitingNote
   \<and> activeView w_composing = Some sample_editor
   \<and> activeView (step w_composing (NoteSettled 0 (note_ok ''   '')))
      = Some \<lparr> before_cursor = ''# Log '' @ [CHR 0x0A], selection = [],
               after_cursor = '' end'' \<rparr>
   \<and> notices (step w_composing (NoteSettled 0 (note_ok ''   '')))
      = notices w_composing @ [''Voice note inserted.'']"
proof -
  have a: "apiKey (sample_settings ''gpt-4o-mini'') \<noteq> []"
    and b: "noteModel (sample_settings ''gpt-4o-mini'') \<noteq> []"
    by (simp_all add: sample_settings_def)
  have ws: "''   '' \<noteq> [] \<and> (\<forall>ch \<in> set ''   ''. isWhiteSpace ch)"
    by (simp add: isWhiteSpace_def)
  note inst = C10_content_checked_before_trimming [OF a b]
  from inst [of "''buy milk''" "[]"
               "ChatJson (Some [ChatChoice (Some (ChatMessage (Some ''   '')))])"
               "''   ''" "[]" sample_editor w_composing 0] ws
       w_composing_attempt w_composing_view
  have 1: "generateNote (sample_settings ''gpt-4o-mini'') ''buy milk'' (note_ok ''   '') = Inr []
     \<and> activeView (step w_composing (NoteSettled 0 (note_ok ''   '')))
        = Some \<lparr> before_cursor = ''# Log '' @ [CHR 0x0A], selection = [],
                 after_cursor = '' end'' \<rparr>
     \<and> notices (step w_composing (NoteSettled 0 (note_ok ''   '')))
        = notices w_composing @ [''Voice note inserted.'']"
    by (auto simp: note_ok_def sample_editor_def Let_def)
  from inst [of "''buy milk''" "[]"
              "ChatJson (Some [ChatChoice (Some (ChatMessage (Some [])))])" "[]" "[]"]
  have 2: "generateNote (sample_settings ''gpt-4o-mini'') ''buy milk'' (note_ok [])
      = Inl (Error ''Note creation returned no content.'')"
    by (simp add: note_ok_def first_choice_content_def)
  from inst [of "''buy milk''" "[]"
              "ChatJson (Some [ChatChoice (Some (ChatMessage (Some '' - milk '')))])" "[]" "[]"]
  have 3: "generateNote (sample_settings ''gpt-4o-mini'') ''buy milk'' (note_ok '' - milk '')
      = Inr ''- milk''"
    by (simp add: note_ok_def first_choice_content_def trim_def isWhiteSpace_def)
  from 1 2 3 a b w_composing_attempt w_composing_view
  show ?thesis by (simp add: isWhiteSpace_def)
qed


subsection \<open>Starting a recording\<close>

text \<open>
  A toggle in state \<open>Idle\<close>. Without \<^verbatim>\<open>getUserMedia\<close> the call only emits the
  notice "Microphone access is not available.": no recorder is created, none is held,
  and the state stays \<open>Idle\<close>. With it the call waits for the microphone, and when the
  stream is granted the new recorder is held and capturing, the buffer is empty, the
  state is \<open>Recording\<close> (the listener is told), and "Recording started." is emitted.
\<close>

lemma toggle_from_idle:
  "state w = Idle \<longrightarrow>
     (\<not> hasGetUserMedia w \<longrightarrow>
        step w ToggleRecording = notice ''Microphone access is not available.'' w
        \<and> state (step w ToggleRecording) = Idle
        \<and> mediaRecorder (step w ToggleRecording) = mediaRecorder w
        \<and> created (step w ToggleRecording) = created w
        \<and> pendingStarts (step w ToggleRecording) = pendingStarts w
        \<and> notices (step w ToggleRecording)
            = notices w @ [''Microphone access is not available.''])
     \<and> (hasGetUserMedia w \<longrightarrow>
          (let w1 = step w ToggleRecording;
               w2 = step w1 (UserMediaGranted supported browserType)
           in state w1 = Idle \<and> pendingStarts w1 = pendingStarts w + 1
              \<and> notices w1 = notices w
              \<and> state w2 = Recording
              \<and> mediaRecorder w2 = Some (created w)
              \<and> map_option status (recorders w2 (created w)) = Some Capturing
              \<and> chunks w2 = []
              \<and> stateChanges w2 = stateChanges w @ [Recording]
              \<and> notices w2 = notices w @ [''Recording started.'']))"
  by (simp add: toggleRecording_def startRecording_def startRecording_granted_def
        setState_def notice_def Let_def)

lemma toggle_from_idle_example:
  "state (initial DEFAULT_SETTINGS False None) = Idle
   \<and> \<not> hasGetUserMedia (initial DEFAULT_SETTINGS False None)
   \<and> state (step (initial DEFAULT_SETTINGS False None) ToggleRecording) = Idle
   \<and> notices (step (initial DEFAULT_SETTINGS False None) ToggleRecording)
      = [''Microphone access is not available.'']
   \<and> state (initial DEFAULT_SETTINGS True None) = Idle
   \<and> hasGetUserMedia (initial DEFAULT_SETTINGS True None)
   \<and> state (step (step (initial DEFAULT_SETTINGS True None) ToggleRecording)
               (UserMediaGranted True [])) = Recording
   \<and> notices (step (step (initial DEFAULT_SETTINGS True None) ToggleRecording)
               (UserMediaGranted True [])) = [''Recording started.'']"
proof -
  have a: "state (initial DEFAULT_SETTINGS False None) = Idle"
          "\<not> hasGetUserMedia (initial DEFAULT_SETTINGS False None)"
          "notices (initial DEFAULT_SETTINGS False None) = []"
    by (simp_all add: initial_def)
  have b: "state (initial DEFAULT_SETTINGS True None) = Idle"
          "hasGetUserMedia (initial DEFAULT_SETTINGS True None)"
          "notices (initial DEFAULT_SETTINGS True None) = []"
    by (simp_all add: initial_def)
  from toggle_from_idle [of "initial DEFAULT_SETTINGS False None" True "[]"] a
  have 1: "state (step (initial DEFAULT_SETTINGS False None) ToggleRecording) = Idle
           \<and> notices (step (initial DEFAULT_SETTINGS False None) ToggleRecording)
              = [''Microphone access is not available.'']"
    by simp
  from toggle_from_idle [of "initial DEFAULT_SETTINGS True None" True "[]"] b
  have 2: "state (step (step (initial DEFAULT_SETTINGS True None) ToggleRecording)
               (UserMediaGranted True [])) = Recording
           \<and> notices (step (step (initial DEFAULT_SETTINGS True None) ToggleRecording)
               (UserMediaGranted True [])) = [''Recording started.'']"
    by (auto simp: Let_def)
  from a b 1 2 show ?thesis by simp
qed

lemma granted_starts_recording:
  assumes "pendingStarts w > 0"
  shows "state (step w (UserMediaGranted supported browserType)) = Recording
         \<and> mediaRecorder (step w (UserMediaGranted supported browserType)) = Some (created w)
         \<and> notices (step w (UserMediaGranted supported browserType))
            = notices w @ [''Recording started.'']"
  using assms by (simp add: startRecording_granted_def setState_def notice_def Let_def)

text \<open>
  A rejected \<^verbatim>\<open>getUserMedia\<close> (there is no device, or the permission is
  denied) is a third outcome: \<^verbatim>\<open>startRecording\<close> has no \<^verbatim>\<open>catch\<close>, so the
  state and the held recorder stay as they are, no notice is emitted, and the rejection
  leaves \<^verbatim>\<open>toggleRecording\<close>, whose promise main.ts discards.
\<close>

lemma denied_changes_nothing:
  assumes "pendingStarts w > 0"
  shows "state (step w (UserMediaDenied err)) = state w
         \<and> mediaRecorder (step w (UserMediaDenied err)) = mediaRecorder w
         \<and> notices (step w (UserMediaDenied err)) = notices w
         \<and> uncaught (step w (UserMediaDenied err)) = uncaught w @ [err]"
  using assms by (simp add: startRecording_denied_def)

text \<open>
  C9 says that a toggle from \<open>Idle\<close> that cannot acquire the capture handle leaves the
  state \<open>Idle\<close> and informs the user. That holds when \<^verbatim>\<open>getUserMedia\<close> is missing
  (\<open>toggle_from_idle\<close>), and fails when it is there and rejects: in \<open>w_denied\<close> the
  state is \<open>Idle\<close> and no recorder is held, but no notice was emitted, and the error is
  left uncaught.
\<close>

theorem C9_rejected_microphone_gives_no_notice:
  "state w_denied = Idle
   \<and> mediaRecorder w_denied = None
   \<and> notices w_denied = []
   \<and> uncaught w_denied = [Error ''Requested device not found'']"
  by (simp add: w_denied_def eval_defs)

subsection \<open>The settings read by the stages\<close>

lemma w_recorded_facts:
  "attempts w_recorded 0 = Some AwaitingStop"
  "map_option status (recorders w_recorded 0) = Some Stopping"
  "apiKey (settings w_recorded) = ''sk-1''"
  "transcriptionModel (settings w_recorded) = ''whisper-1''"
  "transcriptionRequests w_recorded = []"
  by (simp_all add: eval_defs)

lemma w_transcribing_facts:
  "noteRequests w_transcribing = []"
  "transcribeAudio_response (transcript_ok ''buy milk'') = Inr ''buy milk''"
  by (simp_all add: eval_defs string_defs)


text \<open>
  C7, as stated: the configuration is read once when a cycle starts, so that both stages
  of the cycle use the same values. In \<open>w_edited\<close> the settings are edited after the
  transcription request has left and before its response arrives: the transcription
  request of the cycle carries the key "sk-1", its composition request the key "sk-2" and
  the model of the edited settings.
\<close>

theorem C7_counterexample:
  "map tr_authorization (transcriptionRequests w_edited) = [''Bearer sk-1'']
   \<and> map nr_authorization (noteRequests w_edited) = [''Bearer sk-2'']
   \<and> map (model \<circ> nr_body) (noteRequests w_edited) = [''gpt-5-mini'']
   \<and> map (temperature \<circ> nr_body) (noteRequests w_edited) = [None]
   \<and> attempts w_edited 0 = Some AwaitingNote"
  by (simp add: w_edited_def eval_defs edited_settings_def string_defs)

text \<open>
  C7, amended: each stage reads the settings when it starts, and nothing is kept from one
  read to the next. When the recorder has stopped, the transcription request carries the
  key and the model the settings hold at that moment; when the transcript has arrived,
  the composition request carries the key, the model and the prompt they hold then. The
  service never writes the settings: after an edit they are what was written, and every
  other event leaves them alone. So the two stages agree unless an edit falls between
  them, and an edit between two recordings is what the next cycle reads.
\<close>

theorem C7_each_stage_reads_current_settings:
  "(recorders w r = Some m \<and> status m = Stopping \<and> attempts w r = Some AwaitingStop
      \<and> apiKey (settings w) \<noteq> [] \<and> transcriptionModel (settings w) \<noteq> [] \<longrightarrow>
      (\<exists>req. transcriptionRequests (step w (RecorderStopped r)) = transcriptionRequests w @ [req]
         \<and> tr_authorization req = ''Bearer '' @ apiKey (settings w)
         \<and> tr_model req = transcriptionModel (settings w)))
   \<and> (attempts w r = Some AwaitingTranscription \<and> transcribeAudio_response fr = Inr transcript
      \<and> apiKey (settings w) \<noteq> [] \<and> noteModel (settings w) \<noteq> [] \<longrightarrow>
      (\<exists>req. noteRequests (step w (TranscriptionSettled r fr)) = noteRequests w @ [req]
         \<and> nr_authorization req = ''Bearer '' @ apiKey (settings w)
         \<and> model (nr_body req) = noteModel (settings w)
         \<and> messages (nr_body req)
             = [(System, notePrompt (settings w)),
                (User, ''Transcript:'' @ [CHR 0x0A] @ transcript)]))
   \<and> settings (step w (SettingsEdited s)) = s
   \<and> ((\<forall>s'. e \<noteq> SettingsEdited s') \<longrightarrow> settings (step w e) = settings w)"
proof -
  have a: "recorders w r = Some m \<and> status m = Stopping \<and> attempts w r = Some AwaitingStop
      \<and> apiKey (settings w) \<noteq> [] \<and> transcriptionModel (settings w) \<noteq> [] \<longrightarrow>
      (\<exists>req. transcriptionRequests (step w (RecorderStopped r)) = transcriptionRequests w @ [req]
         \<and> tr_authorization req = ''Bearer '' @ apiKey (settings w)
         \<and> tr_model req = transcriptionModel (settings w))"
    by (simp add: stopRecording_stopped_def transcribeAudio_request_def Let_def)
  have b: "attempts w r = Some AwaitingTranscription \<and> transcribeAudio_response fr = Inr transcript
      \<and> apiKey (settings w) \<noteq> [] \<and> noteModel (settings w) \<noteq> [] \<longrightarrow>
      (\<exists>req. noteRequests (step w (TranscriptionSettled r fr)) = noteRequests w @ [req]
         \<and> nr_authorization req = ''Bearer '' @ apiKey (settings w)
         \<and> model (nr_body req) = noteModel (settings w)
         \<and> messages (nr_body req)
             = [(System, notePrompt (settings w)),
                (User, ''Transcript:'' @ [CHR 0x0A] @ transcript)])"
    by (simp add: stopRecording_transcribed_def generateNote_request_def Let_def)
  have c: "settings (step w (SettingsEdited s)) = s" by simp
  have d: "(\<forall>s'. e \<noteq> SettingsEdited s') \<longrightarrow> settings (step w e) = settings w"
    by (cases e)
       (auto simp: segment_defs Let_def split: option.splits sum.splits if_splits)
  from a b c d show ?thesis by blast
qed

lemma w_reconfigured_facts:
  "attempts w_reconfigured 0 = Some AwaitingTranscription"
  "settings w_reconfigured = edited_settings"
  "noteRequests w_reconfigured = []"
  by (simp_all add: w_reconfigured_def eval_defs)

theorem C7_each_stage_reads_current_settings_witness:
  "map_option status (recorders w_recorded 0) = Some Stopping
   \<and> attempts w_recorded 0 = Some AwaitingStop
   \<and> apiKey (settings w_recorded) = ''sk-1''
   \<and> transcriptionModel (settings w_recorded) = ''whisper-1''
   \<and> map tr_authorization (transcriptionRequests (step w_recorded (RecorderStopped 0)))
      = [''Bearer sk-1'']
   \<and> attempts w_reconfigured 0 = Some AwaitingTranscription
   \<and> transcribeAudio_response (transcript_ok ''buy milk'') = Inr ''buy milk''
   \<and> settings w_reconfigured = edited_settings
   \<and> map nr_authorization
        (noteRequests (step w_reconfigured (TranscriptionSettled 0 (transcript_ok ''buy milk''))))
      = [''Bearer sk-2'']
   \<and> settings (step w_reconfigured ToggleRecording) = edited_settings"
proof -
  obtain m where m: "recorders w_recorded 0 = Some m" "status m = Stopping"
    using w_recorded_facts(2) by auto
  note thm1 = C7_each_stage_reads_current_settings
                [of w_recorded 0 m "transcript_ok ''buy milk''" "''buy milk''" edited_settings
                    ToggleRecording]
  note thm2 = C7_each_stage_reads_current_settings
                [of w_reconfigured 0 m "transcript_ok ''buy milk''" "''buy milk''" edited_settings
                    ToggleRecording]
  from thm1 m w_recorded_facts
  have 1: "map tr_authorization (transcriptionRequests (step w_recorded (RecorderStopped 0)))
      = [''Bearer sk-1'']"
    by auto
  from thm2 w_reconfigured_facts w_transcribing_facts(2)
  have 2: "map nr_authorization
        (noteRequests (step w_reconfigured (TranscriptionSettled 0 (transcript_ok ''buy milk''))))
      = [''Bearer sk-2'']"
    by (auto simp: edited_settings_def)
  from thm2 w_reconfigured_facts
  have 3: "settings (step w_reconfigured ToggleRecording) = edited_settings"
    by auto
  from 1 2 3 w_recorded_facts w_reconfigured_facts w_transcribing_facts(2)
  show ?thesis by simp
qed

subsection \<open>Overlapping calls\<close>

lemma toggle_while_processing:
  assumes "state w = Processing"
  shows "step w ToggleRecording = notice ''Already processing the previous recording.'' w
         \<and> state (step w ToggleRecording) = Processing
         \<and> attempts (step w ToggleRecording) = attempts w
         \<and> recorders (step w ToggleRecording) = recorders w
         \<and> transcriptionRequests (step w ToggleRecording) = transcriptionRequests w
         \<and> step w StopIfRecording = w"
  using assms by (simp add: toggleRecording_def stopIfRecording_def)

text \<open>
  C3 says that a toggle during \<open>Processing\<close> starts nothing, leaves the state and emits
  the notice, and concludes that at most one attempt is in flight at any time. The first
  part is \<open>toggle_while_processing\<close>. The conclusion fails: \<^verbatim>\<open>toggleRecording\<close> guards
  the state \<open>Processing\<close> but not a \<^verbatim>\<open>startRecording\<close> that still waits for the
  microphone. In \<open>w_two_attempts\<close> two starts are pending; the first grant starts a
  recording, a toggle stops it, the second grant sets the state back to \<open>Recording\<close>
  while the first attempt runs, and the next toggle stops the second recorder. Both
  attempts have sent their transcription request and neither has returned; no toggle
  met the state \<open>Processing\<close>, so the notice was never emitted.
\<close>

theorem C3_two_attempts_in_flight:
  "attempts w_two_attempts 0 = Some AwaitingTranscription
   \<and> attempts w_two_attempts 1 = Some AwaitingTranscription
   \<and> length (transcriptionRequests w_two_attempts) = 2
   \<and> state w_two_attempts = Processing
   \<and> notices w_two_attempts = [''Recording started.'', ''Recording started.'']"
  by (simp add: w_two_attempts_def eval_defs)

text \<open>
  C8 says that the state is \<open>Recording\<close> exactly when a recorder is held, and that at
  most one capture handle exists. After two clicks before the first grant
  (\<open>w_two_recorders\<close>) two recorders are capturing; the field holds the second, and
  the service never stops the first. With a third click between the grants
  (\<open>w_idle_holding\<close>) the first attempt settles into \<open>Idle\<close> while the second recorder
  is held and capturing.
\<close>

theorem C8_two_recorders_and_idle_holding:
  "state w_two_recorders = Recording
   \<and> mediaRecorder w_two_recorders = Some 1
   \<and> map_option status (recorders w_two_recorders 0) = Some Capturing
   \<and> map_option status (recorders w_two_recorders 1) = Some Capturing
   \<and> state w_idle_holding = Idle
   \<and> mediaRecorder w_idle_holding = Some 1
   \<and> map_option status (recorders w_idle_holding 1) = Some Capturing
   \<and> notices w_idle_holding
      = [''Recording started.'', ''Recording started.'',
         ''Add your OpenAI API key in settings.'']"
  by (simp add: w_two_recorders_def w_idle_holding_def eval_defs)


subsection \<open>What holds of every run\<close>

text \<open>
  Whatever the order of events: a recorder's number is below the number of recorders
  created, and in state \<open>Recording\<close> a recorder is held. A recorder that captures and is
  not held is never stopped by the service, since \<^verbatim>\<open>stop()\<close> is only called on the
  held one: it captures until its tracks end on their own. This is the fate of the first
  recorder of \<open>w_two_recorders\<close>. And a call of \<^verbatim>\<open>stopRecording\<close> that waits for
  the stop event of a recorder that is inactive already waits for ever: in
  \<open>w_self_stopped\<close> the \<^verbatim>\<open>try\<close> block is never entered.
\<close>

lemma recorder_ids_step:
  assumes "\<And>r m. recorders w r = Some m \<Longrightarrow> r < created w"
    and "recorders (step w e) r = Some m"
  shows "r < created (step w e)"
  using assms
  by (cases e)
     (auto simp: segment_defs Let_def less_Suc_eq split: option.splits if_splits sum.splits)

lemma recorder_ids_below_created:
  "reachable w \<Longrightarrow> recorders w r = Some m \<Longrightarrow> r < created w"
proof (induction arbitrary: r m rule: reachable.induct)
  case (reachable_initial s cap view)
  then show ?case by (simp add: initial_def)
next
  case (reachable_step w e)
  then show ?case using recorder_ids_step by blast
qed

lemma recording_holds_step:
  assumes "state w = Recording \<longrightarrow> mediaRecorder w \<noteq> None"
  shows "state (step w e) = Recording \<longrightarrow> mediaRecorder (step w e) \<noteq> None"
  using assms
  by (cases e)
     (auto simp: segment_defs Let_def split: option.splits if_splits sum.splits)

lemma recording_implies_held:
  "reachable w \<Longrightarrow> state w = Recording \<longrightarrow> mediaRecorder w \<noteq> None"
proof (induction rule: reachable.induct)
  case (reachable_initial s cap view)
  then show ?case by (simp add: initial_def)
next
  case (reachable_step w e)
  from reachable_step.IH show ?case by (rule recording_holds_step)
qed

lemma reachable_run: "reachable w \<Longrightarrow> reachable (run w es)"
proof (induction es arbitrary: w)
  case Nil
  then show ?case by (simp add: run_def)
next
  case (Cons e es)
  from Cons.prems have "reachable (step w e)" by (rule reachable_step)
  then have "reachable (run (step w e) es)" by (rule Cons.IH)
  then show ?case by (simp add: run_def)
qed

lemma unheld_recorder_step:
  assumes fresh: "\<And>r' m'. recorders w r' = Some m' \<Longrightarrow> r' < created w"
    and r: "recorders w r = Some m" "status m = Capturing" "mediaRecorder w \<noteq> Some r"
    and e: "e \<noteq> RecorderStopped r"
  shows "recorders (step w e) r = Some m \<and> mediaRecorder (step w e) \<noteq> Some r"
proof -
  from fresh r have lt: "r < created w" by blast
  show ?thesis
    using r lt e
    by (cases e)
       (auto simp: segment_defs Let_def split: option.splits if_splits sum.splits)
qed

lemma unheld_recorder_never_stopped:
  assumes "reachable w" and "recorders w r = Some m" and "status m = Capturing"
    and "mediaRecorder w \<noteq> Some r" and "RecorderStopped r \<notin> set es"
  shows "recorders (run w es) r = Some m \<and> mediaRecorder (run w es) \<noteq> Some r"
  using assms
proof (induction es arbitrary: w)
  case Nil
  then show ?case by (simp add: run_def)
next
  case (Cons e es)
  have fresh: "\<And>r' m'. recorders w r' = Some m' \<Longrightarrow> r' < created w"
    using Cons.prems(1) by (rule recorder_ids_below_created)
  from Cons.prems(5) have e: "e \<noteq> RecorderStopped r" and es: "RecorderStopped r \<notin> set es"
    by auto
  from unheld_recorder_step [where e = e, OF fresh Cons.prems(2,3,4) e]
  have s: "recorders (step w e) r = Some m" "mediaRecorder (step w e) \<noteq> Some r"
    by simp_all
  from Cons.prems(1) have "reachable (step w e)" by (rule reachable_step)
  from Cons.IH [OF this s(1) Cons.prems(3) s(2) es] show ?case by (simp add: run_def)
qed

lemma w_two_recorders_reachable: "reachable w_two_recorders"
  unfolding w_two_recorders_def by (rule reachable_run) (rule reachable_initial)

lemma first_recorder_leaked:
  assumes "RecorderStopped 0 \<notin> set es"
  shows "map_option status (recorders (run w_two_recorders es) 0) = Some Capturing
         \<and> mediaRecorder (run w_two_recorders es) \<noteq> Some 0"
proof -
  have r: "recorders w_two_recorders 0 = Some \<lparr> mimeType = DEFAULT_MIME_TYPE, status = Capturing \<rparr>"
    and h: "mediaRecorder w_two_recorders \<noteq> Some 0"
    by (simp_all add: w_two_recorders_def eval_defs)
  from unheld_recorder_never_stopped [where es = es, OF w_two_recorders_reachable r _ h assms]
  show ?thesis by simp
qed

lemma waiting_for_inactive_step:
  assumes fresh: "\<And>r' m'. recorders w r' = Some m' \<Longrightarrow> r' < created w"
    and r: "recorders w r = Some m" "status m = Released"
    and a: "attempts w r = Some AwaitingStop" and h: "mediaRecorder w \<noteq> Some r"
  shows "recorders (step w e) r = Some m \<and> attempts (step w e) r = Some AwaitingStop
         \<and> mediaRecorder (step w e) \<noteq> Some r"
proof -
  from fresh r have lt: "r < created w" by blast
  show ?thesis
    using r a h lt
    by (cases e)
       (auto simp: segment_defs Let_def split: option.splits if_splits sum.splits)
qed

lemma waiting_for_inactive_recorder:
  assumes "reachable w" and "recorders w r = Some m" and "status m = Released"
    and "attempts w r = Some AwaitingStop" and "mediaRecorder w \<noteq> Some r"
  shows "attempts (run w es) r = Some AwaitingStop"
  using assms
proof (induction es arbitrary: w)
  case Nil
  then show ?case by (simp add: run_def)
next
  case (Cons e es)
  have fresh: "\<And>r' m'. recorders w r' = Some m' \<Longrightarrow> r' < created w"
    using Cons.prems(1) by (rule recorder_ids_below_created)
  from waiting_for_inactive_step [where e = e, OF fresh Cons.prems(2,3,4,5)]
  have s: "recorders (step w e) r = Some m" "attempts (step w e) r = Some AwaitingStop"
          "mediaRecorder (step w e) \<noteq> Some r"
    by simp_all
  from Cons.prems(1) have "reachable (step w e)" by (rule reachable_step)
  from Cons.IH [OF this s(1) Cons.prems(3) s(2) s(3)] show ?case by (simp add: run_def)
qed

lemma w_self_stopped_reachable: "reachable w_self_stopped"
  unfolding w_self_stopped_def by (rule reachable_run) (rule reachable_initial)

lemma self_stopped_never_settles:
  "state w_self_stopped = Processing
   \<and> chunks w_self_stopped = []
   \<and> attempts (run w_self_stopped es) 0 = Some AwaitingStop"
proof -
  have f: "recorders w_self_stopped 0 = Some \<lparr> mimeType = DEFAULT_MIME_TYPE, status = Released \<rparr>"
          "attempts w_self_stopped 0 = Some AwaitingStop"
          "mediaRecorder w_self_stopped \<noteq> Some 0"
          "state w_self_stopped = Processing" "chunks w_self_stopped = []"
    by (simp_all add: w_self_stopped_def eval_defs)
  from waiting_for_inactive_recorder [where es = es, OF w_self_stopped_reachable f(1) _ f(2) f(3)]
  have "attempts (run w_self_stopped es) 0 = Some AwaitingStop" by simp
  with f show ?thesis by simp
qed


subsection \<open>What holds when no call overlaps a start\<close>

text \<open>
  If \<^verbatim>\<open>toggleRecording\<close> is never called while a start is pending, the state is
  \<open>Recording\<close> exactly when a recorder is held, at most one recorder is unreleased, at
  most one attempt is in flight, and in state \<open>Idle\<close> nothing is captured.
\<close>

lemma serial_inv_initial: "serial_inv (initial s cap view)"
  by (simp add: serial_inv_def initial_def unreleased_def)

lemma serial_inv_Idle:
  "state w = Idle \<Longrightarrow> serial_inv w \<longleftrightarrow>
     mediaRecorder w = None \<and> pendingStarts w \<le> 1
     \<and> (\<forall>r. attempts w r = None) \<and> (\<forall>r. \<not> unreleased w r)"
  by (simp add: serial_inv_def)

lemma serial_inv_Recording:
  "state w = Recording \<Longrightarrow> serial_inv w \<longleftrightarrow>
     pendingStarts w = 0 \<and> (\<forall>r. attempts w r = None)
     \<and> (\<exists>r. mediaRecorder w = Some r \<and> (unreleased w r \<longrightarrow> capturing w r)
            \<and> (\<forall>r'. r' \<noteq> r \<longrightarrow> \<not> unreleased w r'))"
  by (simp add: serial_inv_def)

lemma serial_inv_Processing:
  "state w = Processing \<Longrightarrow> serial_inv w \<longleftrightarrow>
     mediaRecorder w = None \<and> pendingStarts w = 0
     \<and> (\<exists>r. attempts w r \<noteq> None \<and> \<not> capturing w r
            \<and> (unreleased w r \<longrightarrow> attempts w r = Some AwaitingStop)
            \<and> (\<forall>r'. r' \<noteq> r \<longrightarrow> attempts w r' = None \<and> \<not> unreleased w r'))"
  by (simp add: serial_inv_def)

lemma stopRecording_held:
  assumes "mediaRecorder w = Some r"
  shows "stopRecording w =
           recorder_stop r
             (w\<lparr> state := Processing, stateChanges := stateChanges w @ [Processing],
                 mediaRecorder := None, attempts := (attempts w)(r \<mapsto> AwaitingStop) \<rparr>)"
  using assms by (simp add: stopRecording_def setState_def Let_def)

lemma recorder_stop_fields:
  "state (recorder_stop r w) = state w"
  "mediaRecorder (recorder_stop r w) = mediaRecorder w"
  "pendingStarts (recorder_stop r w) = pendingStarts w"
  "attempts (recorder_stop r w) = attempts w"
  by (simp_all add: recorder_stop_def split: option.splits)

lemma recorder_stop_other:
  "r' \<noteq> r \<Longrightarrow> unreleased (recorder_stop r w) r' = unreleased w r'"
  by (simp add: recorder_stop_def unreleased_def split: option.splits)

lemma recorder_stop_not_capturing: "\<not> capturing (recorder_stop r w) r"
  by (simp add: recorder_stop_def capturing_def split: option.splits)

lemma serial_stopRecording:
  assumes inv: "serial_inv w" and st: "state w = Recording"
  shows "serial_inv (stopRecording w)"
proof -
  from inv st obtain r where r: "mediaRecorder w = Some r"
      and others: "\<And>r'. r' \<noteq> r \<Longrightarrow> \<not> unreleased w r'"
    unfolding serial_inv_Recording [OF st] by blast
  let ?w = "w\<lparr> state := Processing, stateChanges := stateChanges w @ [Processing],
               mediaRecorder := None, attempts := (attempts w)(r \<mapsto> AwaitingStop) \<rparr>"
  have eq: "stopRecording w = recorder_stop r ?w" using r by (rule stopRecording_held)
  have s': "state (stopRecording w) = Processing" by (simp add: eq recorder_stop_fields)
  from inv st have p: "pendingStarts w = 0" and na: "\<And>r'. attempts w r' = None"
    unfolding serial_inv_Recording [OF st] by simp_all
  have o': "\<not> unreleased (recorder_stop r ?w) r'" if "r' \<noteq> r" for r'
    using others [OF that] recorder_stop_other [OF that, of ?w]
    by (simp add: unreleased_def)
  show ?thesis
    unfolding serial_inv_Processing [OF s']
    unfolding eq
    using p na o' recorder_stop_not_capturing [of r ?w]
    by (auto simp: recorder_stop_fields intro!: exI [of _ r])
qed

lemma serial_inv_frame [simp]:
  "serial_inv (w\<lparr> chunks := c \<rparr>) = serial_inv w"
  "serial_inv (w\<lparr> notices := ns \<rparr>) = serial_inv w"
  "serial_inv (w\<lparr> settings := s \<rparr>) = serial_inv w"
  "serial_inv (w\<lparr> activeView := v \<rparr>) = serial_inv w"
  "serial_inv (w\<lparr> uncaught := u \<rparr>) = serial_inv w"
  "serial_inv (w\<lparr> transcriptionRequests := tr \<rparr>) = serial_inv w"
  "serial_inv (w\<lparr> noteRequests := nr \<rparr>) = serial_inv w"
  by (simp_all add: serial_inv_def unreleased_def capturing_def)

lemma serial_inv_notice [simp]: "serial_inv (notice msg w) = serial_inv w"
  by (simp add: notice_def)

lemma serial_toggle:
  assumes inv: "serial_inv w" and p: "pendingStarts w = 0"
  shows "serial_inv (toggleRecording w)"
proof (cases "state w")
  case Idle
  have "serial_inv (w\<lparr> pendingStarts := Suc 0 \<rparr>)"
    using inv p Idle by (simp add: serial_inv_def unreleased_def)
  with inv Idle p show ?thesis by (simp add: toggleRecording_def startRecording_def)
next
  case Recording
  with inv serial_stopRecording show ?thesis by (simp add: toggleRecording_def)
next
  case Processing
  with inv show ?thesis by (simp add: toggleRecording_def)
qed

lemma serial_stopIf:
  assumes inv: "serial_inv w"
  shows "serial_inv (stopIfRecording w)"
  using inv serial_stopRecording by (simp add: stopIfRecording_def)

lemma serial_pending:
  assumes inv: "serial_inv w" and p: "pendingStarts w \<noteq> 0"
  shows "state w = Idle"
  using assms by (cases "state w") (simp_all add: serial_inv_def)

lemma serial_granted:
  assumes inv: "serial_inv w" and p: "pendingStarts w \<noteq> 0"
  shows "serial_inv (startRecording_granted supported browserType w)"
proof -
  have i: "state w = Idle" using inv p by (rule serial_pending)
  from inv i have p1: "pendingStarts w \<le> 1" and na: "\<And>r. attempts w r = None"
      and nu: "\<And>r. \<not> unreleased w r"
    unfolding serial_inv_Idle [OF i] by auto
  have s': "state (startRecording_granted supported browserType w) = Recording"
    by (simp add: startRecording_granted_def setState_def notice_def Let_def)
  show ?thesis
    unfolding serial_inv_Recording [OF s']
    using p p1 na nu
    by (simp add: startRecording_granted_def setState_def notice_def Let_def
          capturing_def unreleased_def)
qed

lemma serial_denied:
  assumes inv: "serial_inv w" and p: "pendingStarts w \<noteq> 0"
  shows "serial_inv (startRecording_denied err w)"
proof -
  have i: "state w = Idle" using inv p by (rule serial_pending)
  have s': "state (startRecording_denied err w) = Idle"
    by (simp add: startRecording_denied_def i)
  show ?thesis
    unfolding serial_inv_Idle [OF s']
    using inv unfolding serial_inv_Idle [OF i]
    by (simp add: startRecording_denied_def unreleased_def)
qed

lemma serial_data:
  assumes inv: "serial_inv w"
  shows "serial_inv (onDataAvailable b w)"
  using inv by (simp add: onDataAvailable_def)


lemma serial_attempt_processing:
  assumes inv: "serial_inv w" and a: "attempts w r \<noteq> None"
  shows "state w = Processing"
  using assms by (cases "state w") (simp_all add: serial_inv_def)

lemma serial_attempt_only:
  assumes inv: "serial_inv w" and a: "attempts w r \<noteq> None" and r': "r' \<noteq> r"
  shows "attempts w r' = None \<and> \<not> unreleased w r'"
proof -
  have st: "state w = Processing" using inv a by (rule serial_attempt_processing)
  from inv st obtain r0 where r0: "attempts w r0 \<noteq> None"
      and others: "\<And>x. x \<noteq> r0 \<Longrightarrow> attempts w x = None \<and> \<not> unreleased w x"
    unfolding serial_inv_Processing [OF st] by blast
  have "r = r0"
  proof (rule ccontr)
    assume "r \<noteq> r0"
    from others [OF this] a show False by simp
  qed
  with others [of r'] r' show ?thesis by simp
qed

lemma serial_settle:
  assumes inv: "serial_inv w" and a: "attempts w r \<noteq> None" and rel: "\<not> unreleased w r"
  shows "serial_inv (stopRecording_finally r w)"
proof -
  have st: "state w = Processing" using inv a by (rule serial_attempt_processing)
  from inv st have m: "mediaRecorder w = None" and p: "pendingStarts w = 0"
    unfolding serial_inv_Processing [OF st] by simp_all
  have s': "state (stopRecording_finally r w) = Idle"
    by (simp add: stopRecording_finally_def setState_def Let_def)
  have att: "\<And>x. attempts (stopRecording_finally r w) x = None"
    using serial_attempt_only [OF inv a]
    by (simp add: stopRecording_finally_def setState_def Let_def)
  have same: "\<And>x. unreleased (stopRecording_finally r w) x = unreleased w x"
    by (simp add: stopRecording_finally_def setState_def Let_def unreleased_def)
  have unr: "\<not> unreleased (stopRecording_finally r w) x" for x
  proof (cases "x = r")
    case True
    with rel same show ?thesis by simp
  next
    case False
    from serial_attempt_only [OF inv a False] same show ?thesis by simp
  qed
  show ?thesis
    unfolding serial_inv_Idle [OF s']
    using att unr m p by (simp add: stopRecording_finally_def setState_def Let_def)
qed

lemma serial_advance:
  assumes inv: "serial_inv w" and a: "attempts w r \<noteq> None" and rel: "\<not> unreleased w r"
  shows "serial_inv (w\<lparr> attempts := (attempts w)(r \<mapsto> st) \<rparr>)"
proof -
  have st: "state w = Processing" using inv a by (rule serial_attempt_processing)
  from inv st have m: "mediaRecorder w = None" and p: "pendingStarts w = 0"
    unfolding serial_inv_Processing [OF st] by simp_all
  from rel have nc: "\<not> capturing w r"
    by (auto simp: unreleased_def capturing_def split: option.splits)
  have s': "state (w\<lparr> attempts := (attempts w)(r \<mapsto> st) \<rparr>) = Processing"
    using st by simp
  show ?thesis
    unfolding serial_inv_Processing [OF s']
    using m p nc rel serial_attempt_only [OF inv a]
    by (auto simp: unreleased_def capturing_def intro!: exI [of _ r])
qed

lemma serial_release:
  assumes inv: "serial_inv w" and r: "recorders w r = Some m" "status m \<noteq> Released"
  shows "serial_inv (w\<lparr> recorders := (recorders w)(r \<mapsto> m\<lparr> status := Released \<rparr>) \<rparr>)"
proof -
  let ?w = "w\<lparr> recorders := (recorders w)(r \<mapsto> m\<lparr> status := Released \<rparr>) \<rparr>"
  from r have u: "unreleased w r" by (simp add: unreleased_def)
  have rel: "\<not> unreleased ?w x" if "x = r \<or> \<not> unreleased w x" for x
    using that by (auto simp: unreleased_def)
  have ncap: "\<not> capturing ?w x" if "x = r \<or> \<not> capturing w x" for x
    using that by (auto simp: capturing_def)
  show ?thesis
  proof (cases "state w")
    case Idle
    with inv u show ?thesis by (simp add: serial_inv_def)
  next
    case Recording
    with inv obtain r0 where held: "mediaRecorder w = Some r0"
        and o0: "\<And>x. x \<noteq> r0 \<Longrightarrow> \<not> unreleased w x"
      unfolding serial_inv_Recording [OF Recording] by blast
    have eq: "r = r0"
    proof (rule ccontr)
      assume "r \<noteq> r0"
      from o0 [OF this] u show False by simp
    qed
    from inv Recording have p: "pendingStarts w = 0" and na: "\<And>x. attempts w x = None"
      unfolding serial_inv_Recording [OF Recording] by simp_all
    have s': "state ?w = Recording" using Recording by simp
    have all: "\<not> unreleased ?w x" for x
    proof (cases "x = r0")
      case True
      with eq rel [of x] show ?thesis by simp
    next
      case False
      from o0 [OF False] rel [of x] show ?thesis by simp
    qed
    show ?thesis
      unfolding serial_inv_Recording [OF s']
      using p na held all by simp
  next
    case Processing
    from inv Processing obtain r0 where r0: "attempts w r0 \<noteq> None"
        and nc0: "\<not> capturing w r0"
        and others: "\<And>x. x \<noteq> r0 \<Longrightarrow> attempts w x = None \<and> \<not> unreleased w x"
      unfolding serial_inv_Processing [OF Processing] by blast
    have eq: "r = r0"
    proof (rule ccontr)
      assume "r \<noteq> r0"
      from others [OF this] u show False by simp
    qed
    from inv Processing have m: "mediaRecorder w = None" and p: "pendingStarts w = 0"
      unfolding serial_inv_Processing [OF Processing] by simp_all
    have s': "state ?w = Processing" using Processing by simp
    have o': "attempts ?w x = None \<and> \<not> unreleased ?w x" if "x \<noteq> r0" for x
      using others [OF that] rel [of x] by simp
    have a': "attempts ?w r0 \<noteq> None" using r0 by simp
    have n': "\<not> capturing ?w r0" using ncap [of r0] eq by simp
    have u': "\<not> unreleased ?w r0" using rel [of r0] eq by simp
    show ?thesis
      unfolding serial_inv_Processing [OF s']
      using m p a' n' u' o' by (intro conjI exI [of _ r0]) simp_all
  qed
qed

lemma unreleased_frame [simp]:
  "unreleased (notice msg w) = unreleased w"
  "unreleased (stopRecording_catch e w) = unreleased w"
  "unreleased (w\<lparr> activeView := v \<rparr>) = unreleased w"
  by (simp_all add: unreleased_def notice_def stopRecording_catch_def fun_eq_iff)

lemma serial_inv_catch [simp]: "serial_inv (stopRecording_catch e w) = serial_inv w"
  by (simp add: stopRecording_catch_def)

lemma serial_inv_cong:
  assumes "state w = state w'" and "mediaRecorder w = mediaRecorder w'"
    and "pendingStarts w = pendingStarts w'" and "attempts w = attempts w'"
    and "recorders w = recorders w'"
  shows "serial_inv w = serial_inv w'"
  using assms by (simp add: serial_inv_def unreleased_def capturing_def)

lemma serial_stopped:
  assumes inv: "serial_inv w" and r: "recorders w r = Some m" "status m \<noteq> Released"
  shows "serial_inv (stopRecording_stopped r m w)"
proof -
  let ?w = "w\<lparr> recorders := (recorders w)(r \<mapsto> m\<lparr> status := Released \<rparr>) \<rparr>"
  have inv': "serial_inv ?w" using inv r by (rule serial_release)
  have rel: "\<not> unreleased ?w r" by (simp add: unreleased_def)
  show ?thesis
  proof (cases "attempts w r = Some AwaitingStop")
    case False
    with inv' show ?thesis by (simp add: stopRecording_stopped_def Let_def)
  next
    case True
    then have a: "attempts ?w r \<noteq> None" by simp
    show ?thesis
    proof (cases "transcribeAudio_request (settings w)
                    (newBlob (chunks w) (if mimeType m = [] then ''audio/webm'' else mimeType m))")
      case (Inl e)
      have "serial_inv (stopRecording_finally r (stopRecording_catch e ?w))"
        by (rule serial_settle) (use inv' a rel in simp_all)
      with True Inl show ?thesis by (simp add: stopRecording_stopped_def Let_def)
    next
      case (Inr req)
      have "serial_inv (?w\<lparr> attempts := (attempts ?w)(r \<mapsto> AwaitingTranscription) \<rparr>)"
        using inv' a rel by (rule serial_advance)
      moreover have "serial_inv (stopRecording_stopped r m w)
          = serial_inv (?w\<lparr> attempts := (attempts ?w)(r \<mapsto> AwaitingTranscription) \<rparr>)"
        using True Inr by (intro serial_inv_cong) (simp_all add: stopRecording_stopped_def Let_def)
      ultimately show ?thesis by simp
    qed
  qed
qed

lemma serial_released_after_stop:
  assumes inv: "serial_inv w" and a: "attempts w r = Some st" and st: "st \<noteq> AwaitingStop"
  shows "\<not> unreleased w r"
proof -
  from a have a': "attempts w r \<noteq> None" by simp
  have s: "state w = Processing" using inv a' by (rule serial_attempt_processing)
  from inv s obtain r0 where r0: "attempts w r0 \<noteq> None"
      and u0: "unreleased w r0 \<longrightarrow> attempts w r0 = Some AwaitingStop"
      and others: "\<And>x. x \<noteq> r0 \<Longrightarrow> attempts w x = None \<and> \<not> unreleased w x"
    unfolding serial_inv_Processing [OF s] by blast
  have "r = r0"
  proof (rule ccontr)
    assume "r \<noteq> r0"
    from others [OF this] a' show False by simp
  qed
  with u0 a st show ?thesis by auto
qed

lemma serial_transcribed:
  assumes inv: "serial_inv w" and a: "attempts w r = Some AwaitingTranscription"
  shows "serial_inv (stopRecording_transcribed r fr w)"
proof -
  from a have a': "attempts w r \<noteq> None" by simp
  have rel: "\<not> unreleased w r" using inv a by (rule serial_released_after_stop) simp
  have settle: "serial_inv (stopRecording_finally r (stopRecording_catch e w))" for e
    by (rule serial_settle) (use inv a' rel in simp_all)
  have "serial_inv (w\<lparr> attempts := (attempts w)(r \<mapsto> AwaitingNote) \<rparr>)"
    using inv a' rel by (rule serial_advance)
  moreover have "serial_inv (w\<lparr> noteRequests := nr, attempts := (attempts w)(r \<mapsto> AwaitingNote) \<rparr>)
          = serial_inv (w\<lparr> attempts := (attempts w)(r \<mapsto> AwaitingNote) \<rparr>)" for nr
    by (intro serial_inv_cong) simp_all
  ultimately have adv:
    "serial_inv (w\<lparr> noteRequests := nr, attempts := (attempts w)(r \<mapsto> AwaitingNote) \<rparr>)" for nr
    by simp
  show ?thesis
    using settle adv
    by (simp add: stopRecording_transcribed_def split: sum.splits)
qed

lemma serial_composed:
  assumes inv: "serial_inv w" and a: "attempts w r = Some AwaitingNote"
  shows "serial_inv (stopRecording_composed r fr w)"
proof -
  from a have a': "attempts w r \<noteq> None" by simp
  have rel: "\<not> unreleased w r" using inv a by (rule serial_released_after_stop) simp
  have settle: "serial_inv (stopRecording_finally r (stopRecording_catch e w))" for e
    by (rule serial_settle) (use inv a' rel in simp_all)
  have inserted: "serial_inv (stopRecording_finally r (notice msg (w\<lparr> activeView := v \<rparr>)))" for msg v
    by (rule serial_settle) (use inv a' rel in simp_all)
  show ?thesis
    using settle inserted
    by (simp add: stopRecording_composed_def split: sum.splits)
qed

lemma serial_inv_step:
  assumes inv: "serial_inv w" and ser: "e = ToggleRecording \<longrightarrow> pendingStarts w = 0"
  shows "serial_inv (step w e)"
proof (cases e)
  case ToggleRecording
  with inv ser show ?thesis by (simp add: serial_toggle)
next
  case StopIfRecording
  with inv show ?thesis by (simp add: serial_stopIf)
next
  case (UserMediaGranted supported browserType)
  with inv show ?thesis by (simp add: serial_granted)
next
  case (UserMediaDenied err)
  with inv show ?thesis by (simp add: serial_denied)
next
  case (DataAvailable r b)
  with inv show ?thesis by (simp add: serial_data split: option.splits)
next
  case (RecorderStopped r)
  with inv show ?thesis by (simp add: serial_stopped split: option.splits)
next
  case (TranscriptionSettled r fr)
  with inv show ?thesis by (simp add: serial_transcribed)
next
  case (NoteSettled r fr)
  with inv show ?thesis by (simp add: serial_composed)
next
  case (SettingsEdited s)
  with inv show ?thesis by simp
next
  case (ActiveViewChanged v)
  with inv show ?thesis by simp
qed

lemma serial_reachable_inv: "serial_reachable w \<Longrightarrow> serial_inv w"
proof (induction rule: serial_reachable.induct)
  case (serial_initial s cap view)
  show ?case by (rule serial_inv_initial)
next
  case (serial_step w e)
  then show ?case by (simp add: serial_inv_step)
qed

theorem serial_session_invariants:
  assumes "serial_reachable w"
  shows "(state w = Recording \<longleftrightarrow> mediaRecorder w \<noteq> None)
         \<and> (unreleased w r \<and> unreleased w r' \<longrightarrow> r = r')
         \<and> (attempts w r \<noteq> None \<and> attempts w r' \<noteq> None \<longrightarrow> r = r')
         \<and> (unreleased w r \<longrightarrow> state w \<noteq> Idle)
         \<and> (attempts w r \<noteq> None \<longrightarrow> state w = Processing)"
proof -
  from assms have inv: "serial_inv w" by (rule serial_reachable_inv)
  show ?thesis
  proof (cases "state w")
    case Idle
    with inv show ?thesis by (simp add: serial_inv_def)
  next
    case Recording
    with inv obtain r0 where held: "mediaRecorder w = Some r0"
        and na: "\<And>x. attempts w x = None"
        and others: "\<And>x. x \<noteq> r0 \<Longrightarrow> \<not> unreleased w x"
      unfolding serial_inv_Recording [OF Recording] by blast
    have only: "x = r0" if "unreleased w x" for x
      using that others [of x] by (cases "x = r0") simp_all
    have "r = r'" if "unreleased w r" and "unreleased w r'"
      using only [OF that(1)] only [OF that(2)] by simp
    then have "unreleased w r \<and> unreleased w r' \<longrightarrow> r = r'" by blast
    with Recording held na show ?thesis by simp
  next
    case Processing
    with inv obtain r0 where m: "mediaRecorder w = None"
        and others: "\<And>x. x \<noteq> r0 \<Longrightarrow> attempts w x = None \<and> \<not> unreleased w x"
      unfolding serial_inv_Processing [OF Processing] by blast
    have only_u: "x = r0" if "unreleased w x" for x
      using that others [of x] by (cases "x = r0") simp_all
    have only_a: "x = r0" if "attempts w x \<noteq> None" for x
      using that others [of x] by (cases "x = r0") simp_all
    have "r = r'" if "unreleased w r" and "unreleased w r'"
      using only_u [OF that(1)] only_u [OF that(2)] by simp
    then have 1: "unreleased w r \<and> unreleased w r' \<longrightarrow> r = r'" by blast
    have "r = r'" if "attempts w r \<noteq> None" and "attempts w r' \<noteq> None"
      using only_a [OF that(1)] only_a [OF that(2)] by simp
    then have 2: "attempts w r \<noteq> None \<and> attempts w r' \<noteq> None \<longrightarrow> r = r'"
      by blast
    from Processing m 1 2 show ?thesis by simp
  qed
qed


text \<open>The recording of \<open>w_composing\<close> is such a run.\<close>

lemma w_composing_serial: "serial_reachable w_composing"
  unfolding w_composing_def w_transcribing_def w_recorded_def run_def foldl.simps
  by (intro serial_step serial_initial) (simp_all add: eval_defs)

end
